theory Spec2Isabelle
  imports Complex_Main
begin

section \<open>Shared vocabulary\<close>

text \<open>
  The development embeds the cross-thread lifecycle core of the engine: the managed
  Python reference wrapper (\<open>python_ref.h\<close>), the scripting-side Widget handle
  (\<open>python_class_widget.cc\<close>), the deferred-call and timer entry points of
  \<open>python_methods_app.cc\<close> and the context switching they rely on (\<open>base.cc\<close>).

  Pointers are addresses; a pointer that may be null is an \<open>option\<close> with \<open>None\<close> for
  \<open>nullptr\<close>. Threads and contexts are identified by numbers.
\<close>

type_synonym thread_id = nat
type_synonym pyobj = nat
type_synonym pyptr = "pyobj option"
type_synonym pyheap = "pyobj \<Rightarrow> nat"

text \<open>
  \<open>PyExcType\<close> lists the exception types the embedded sources name. \<open>kRuntime\<close> stands
  for the default \<open>python_type\<close> argument of \<open>Exception(message)\<close>: the header that
  declares the default is not among the sources, it is only known to be the type used when
  a call site gives none. \<open>Exception(python_type)\<close>, the other constructor, leaves the
  message empty.
\<close>

datatype PyExcType = kRuntime | kValue | kWidgetNotFound

datatype Exception = Exception string PyExcType

text \<open>
  How a call into native code ends, as its caller sees it: it returns a value; it raises
  an exception; it stops the process (\<open>FatalError\<close>); it uses an object that has been
  destroyed; or it does something else the language leaves undefined (here: a conversion
  of a double to an integer type that cannot hold the value).

  Modelled from the spec: the macros \<open>BA_PYTHON_TRY\<close>, \<open>BA_PYTHON_CATCH\<close> and
  \<open>BA_PYTHON_NEW_CATCH\<close> that enclose the body of every entry point are not among the
  sources. An \<open>Exception\<close> thrown in the body is caught at the native call site and
  handed to the Python caller as a Python exception of the exception's type, which the
  caller can handle (the doc string of \<open>Widget.delete\<close> says so of its own throw:
  "otherwise an Exception is thrown").
\<close>

datatype 'a outcome = Returned 'a | Raised Exception | Fatal string | UseAfterFree | UndefinedBehaviour

section \<open>PythonRef: the managed Python object reference\<close>

datatype ReferenceBehavior = kSteal | kStealSoft | kAcquire | kAcquireSoft

datatype ref_error = InvalidReferenceError

text \<open>The field \<open>obj\<close> is the member \<open>obj_\<close> of the class (a name cannot end in an underscore here).\<close>

record PythonRef =
  obj :: pyptr

definition PythonRef_new :: PythonRef where
  "PythonRef_new = \<lparr>obj = None\<rparr>"

definition Get :: "PythonRef \<Rightarrow> pyptr" where
  "Get r = obj r"

definition Exists :: "PythonRef \<Rightarrow> bool" where
  "Exists r = (obj r \<noteq> None)"

definition Py_INCREF :: "pyobj \<Rightarrow> pyheap \<Rightarrow> pyheap" where
  "Py_INCREF p h = h(p := h p + 1)"

definition Py_DECREF :: "pyobj \<Rightarrow> pyheap \<Rightarrow> pyheap" where
  "Py_DECREF p h = h(p := h p - 1)"

text \<open>
  Modelled from the spec: the bodies of \<open>PythonRef::Release\<close>, \<open>Acquire\<close>,
  \<open>AcquireSoft\<close>, \<open>Steal\<close>, \<open>StealSoft\<close> and of the constructor
  \<open>PythonRef(obj, behavior)\<close> live in \<open>python_ref.cc\<close>, which is not among the sources;
  only their declarations and doc comments in \<open>python_ref.h\<close> are. \<open>Release\<close>
  decrements and clears to empty and is a no-op when already empty.
\<close>

definition Release :: "PythonRef \<Rightarrow> pyheap \<Rightarrow> PythonRef \<times> pyheap" where
  "Release r h =
     (case obj r of
        None \<Rightarrow> (r, h)
      | Some p \<Rightarrow> (r\<lparr>obj := None\<rparr>, Py_DECREF p h))"

text \<open>
  Modelled from the spec: \<open>Acquire(obj)\<close> increments and takes a new reference and fails
  with \<open>InvalidReferenceError\<close> when \<open>obj\<close> is null; a reference held before is given up
  (the wrapper is reassigned away from it).
\<close>

definition Acquire :: "pyptr \<Rightarrow> PythonRef \<Rightarrow> pyheap \<Rightarrow> ref_error + PythonRef \<times> pyheap" where
  "Acquire ptr r h =
     (case ptr of
        None \<Rightarrow> Inl InvalidReferenceError
      | Some p \<Rightarrow>
          (let h1 = Py_INCREF p h;
               h2 = (case obj r of None \<Rightarrow> h1 | Some prev \<Rightarrow> Py_DECREF prev h1)
           in Inr (r\<lparr>obj := Some p\<rparr>, h2)))"

text \<open>
  Modelled from the spec: \<open>Steal(obj)\<close> takes over a reference the caller already held
  (no increment), with the same null handling as \<open>Acquire\<close>.
\<close>

definition Steal :: "pyptr \<Rightarrow> PythonRef \<Rightarrow> pyheap \<Rightarrow> ref_error + PythonRef \<times> pyheap" where
  "Steal ptr r h =
     (case ptr of
        None \<Rightarrow> Inl InvalidReferenceError
      | Some p \<Rightarrow>
          (let h1 = (case obj r of None \<Rightarrow> h | Some prev \<Rightarrow> Py_DECREF prev h)
           in Inr (r\<lparr>obj := Some p\<rparr>, h1)))"

text \<open>
  Modelled from the spec: the soft variants tolerate null, which becomes "unreferenced"
  (header: "Sets to null reference if nullptr is passed").
\<close>

definition AcquireSoft :: "pyptr \<Rightarrow> PythonRef \<Rightarrow> pyheap \<Rightarrow> ref_error + PythonRef \<times> pyheap" where
  "AcquireSoft ptr r h =
     (case ptr of None \<Rightarrow> Inr (Release r h) | Some p \<Rightarrow> Acquire ptr r h)"

definition StealSoft :: "pyptr \<Rightarrow> PythonRef \<Rightarrow> pyheap \<Rightarrow> ref_error + PythonRef \<times> pyheap" where
  "StealSoft ptr r h =
     (case ptr of None \<Rightarrow> Inr (Release r h) | Some p \<Rightarrow> Steal ptr r h)"

text \<open>
  Modelled from the spec: the constructor \<open>PythonRef(obj, behavior)\<close> starts unreferenced
  and applies the operation its \<open>ReferenceBehavior\<close> names (see the enum's doc comments).
\<close>

fun PythonRef_ctor :: "pyptr \<Rightarrow> ReferenceBehavior \<Rightarrow> pyheap \<Rightarrow> ref_error + PythonRef \<times> pyheap" where
  "PythonRef_ctor ptr kSteal h = Steal ptr PythonRef_new h"
| "PythonRef_ctor ptr kStealSoft h = StealSoft ptr PythonRef_new h"
| "PythonRef_ctor ptr kAcquire h = Acquire ptr PythonRef_new h"
| "PythonRef_ctor ptr kAcquireSoft h = AcquireSoft ptr PythonRef_new h"

definition Stolen :: "pyptr \<Rightarrow> pyheap \<Rightarrow> ref_error + PythonRef \<times> pyheap" where
  "Stolen ptr h = PythonRef_ctor ptr kSteal h"

definition StolenSoft :: "pyptr \<Rightarrow> pyheap \<Rightarrow> ref_error + PythonRef \<times> pyheap" where
  "StolenSoft ptr h = PythonRef_ctor ptr kStealSoft h"

definition Acquired :: "pyptr \<Rightarrow> pyheap \<Rightarrow> ref_error + PythonRef \<times> pyheap" where
  "Acquired ptr h = PythonRef_ctor ptr kAcquire h"

definition AcquiredSoft :: "pyptr \<Rightarrow> pyheap \<Rightarrow> ref_error + PythonRef \<times> pyheap" where
  "AcquiredSoft ptr h = PythonRef_ctor ptr kAcquireSoft h"

text \<open>
  \<open>PythonRef::operator=\<close> as written in \<open>python_ref.h\<close>: acquire what \<open>other\<close> references
  if it references something, release otherwise. The arguments are the assigned-to wrapper
  and \<open>other\<close>; \<open>other\<close> is a const reference and is not touched. (The debug assertion
  against self-assignment is not part of the release behaviour.)
\<close>

definition assign :: "PythonRef \<Rightarrow> PythonRef \<Rightarrow> pyheap \<Rightarrow> ref_error + PythonRef \<times> pyheap" where
  "assign this other h =
     (if Exists other then Acquire (Get other) this h else Inr (Release this h))"

definition ref_eq :: "PythonRef \<Rightarrow> PythonRef \<Rightarrow> bool" where
  "ref_eq a b = (Get a = Get b)"

section \<open>Contexts, the logic thread and its event loop\<close>

type_synonym context_id = nat

text \<open>A \<open>ContextRef\<close> is its target pointer: \<open>None\<close> is the empty \<open>ContextRef(nullptr)\<close>.\<close>

type_synonym ContextRef = "context_id option"

datatype LogLevel = kWarning | kError

text \<open>
  The callables that reach the logic thread's event loop, one constructor per closure or
  runnable the sources create, each holding what the closure captures:
  \<^item> \<open>RawCall\<close>: the lambda \<open>[call_obj]\<close> of \<open>pushcall(raw=True)\<close>;
  \<^item> \<open>OtherThreadCall\<close>: the lambda \<open>[call_obj, other_thread_use_fg_context]\<close> of
    \<open>pushcall(from_other_thread=True)\<close>;
  \<^item> \<open>ContextCall\<close>: a \<open>PythonContextCall\<close> with the context it was created in;
  \<^item> \<open>ObjCall\<close>: the lambda \<open>[objset, id]\<close> of \<open>BaseFeatureSet::DoPushObjCall\<close>.
\<close>

datatype LogicCall =
    RawCall pyobj
  | OtherThreadCall pyobj bool
  | ContextCall pyobj ContextRef
  | ObjCall nat

record Timer =
  timer_length :: int
  timer_repeat :: bool
  timer_runnable :: LogicCall

text \<open>
  The part of the process state the embedded functions read and write:
  \<^item> \<open>logic_thread\<close>: the thread of \<open>logic->event_loop()\<close>, \<open>None\<close> while there is no loop;
  \<^item> \<open>context_ref\<close>: the target of \<open>g_base->context_ref\<close>, the ambient current context;
  \<^item> \<open>foreground_context\<close>: what the active app mode's virtual
    \<open>GetForegroundContext()\<close> answers at this moment;
  \<^item> \<open>default_timers_allowed\<close>: the virtual \<open>ContextAllowsDefaultTimerTypes()\<close> of each
    context;
  \<^item> \<open>logic_queue\<close>: the pending calls of the logic event loop, oldest first;
  \<^item> \<open>app_timers\<close>, \<open>display_timers\<close>: the timers of the logic subsystem on the
    app-time and on the display-time base;
  \<^item> \<open>py_refs\<close>: the reference counts of the Python objects;
  \<^item> \<open>log_lines\<close>: what \<open>Log\<close> has written.
\<close>

record base_state =
  logic_thread :: "thread_id option"
  context_ref :: ContextRef
  foreground_context :: ContextRef
  default_timers_allowed :: "context_id \<Rightarrow> bool"
  logic_queue :: "LogicCall list"
  app_timers :: "Timer list"
  display_timers :: "Timer list"
  py_refs :: pyheap
  log_lines :: "(LogLevel \<times> string) list"

text \<open>\<open>BaseFeatureSet::InLogicThread\<close> (\<open>base.cc\<close>), asked by thread \<open>me\<close>.\<close>

definition InLogicThread :: "thread_id \<Rightarrow> base_state \<Rightarrow> bool" where
  "InLogicThread me s = (case logic_thread s of Some t \<Rightarrow> t = me | None \<Rightarrow> False)"

definition CurrentContext :: "base_state \<Rightarrow> ContextRef" where
  "CurrentContext s = context_ref s"

text \<open>\<open>BaseFeatureSet::SetCurrentContext\<close> (\<open>base.cc\<close>): \<open>context_ref->SetTarget(context.Get())\<close>.\<close>

definition SetCurrentContext :: "ContextRef \<Rightarrow> base_state \<Rightarrow> base_state" where
  "SetCurrentContext c s = s\<lparr>context_ref := c\<rparr>"

definition GetForegroundContext :: "base_state \<Rightarrow> ContextRef" where
  "GetForegroundContext s = foreground_context s"

definition Log :: "LogLevel \<Rightarrow> string \<Rightarrow> base_state \<Rightarrow> base_state" where
  "Log lvl msg s = s\<lparr>log_lines := log_lines s @ [(lvl, msg)]\<rparr>"

definition incref :: "pyobj \<Rightarrow> base_state \<Rightarrow> base_state" where
  "incref p s = s\<lparr>py_refs := Py_INCREF p (py_refs s)\<rparr>"

definition decref :: "pyobj \<Rightarrow> base_state \<Rightarrow> base_state" where
  "decref p s = s\<lparr>py_refs := Py_DECREF p (py_refs s)\<rparr>"

text \<open>\<open>BasePython::EnsureContextAllowsDefaultTimerTypes\<close> (\<open>base_python.cc\<close>).\<close>

definition default_timer_types_message :: string where
  "default_timer_types_message =
     ''The current context does not allow creation of default timer types. There are probably timer types specific to the context that you should use instead (scene-timers, base-timers, etc.)''"

definition EnsureContextAllowsDefaultTimerTypes :: "base_state \<Rightarrow> Exception + unit" where
  "EnsureContextAllowsDefaultTimerTypes s =
     (case CurrentContext s of
        Some c \<Rightarrow>
          (if \<not> default_timers_allowed s c
           then Inl (Exception default_timer_types_message kRuntime)
           else Inr ())
      | None \<Rightarrow> Inr ())"

text \<open>
  Modelled from the spec: \<open>EventLoop::PushCall\<close> is in \<open>event_loop.cc\<close>, which is not
  among the sources. It enqueues the callable behind everything already enqueued and
  returns immediately.
\<close>

definition EventLoop_PushCall :: "LogicCall \<Rightarrow> base_state \<Rightarrow> base_state" where
  "EventLoop_PushCall c s = s\<lparr>logic_queue := logic_queue s @ [c]\<rparr>"

text \<open>
  Modelled from the spec: \<open>PythonContextCall\<close> and \<open>PythonContextCallRunnable\<close> are not
  among the sources. Such a call captures the ambient context at the moment it is created,
  holds its own reference to the callable, and \<open>Schedule()\<close> pushes it to the logic
  thread's event loop.
\<close>

definition New_PythonContextCall :: "pyobj \<Rightarrow> base_state \<Rightarrow> LogicCall \<times> base_state" where
  "New_PythonContextCall call_obj s = (ContextCall call_obj (CurrentContext s), incref call_obj s)"

definition Schedule :: "LogicCall \<Rightarrow> base_state \<Rightarrow> base_state" where
  "Schedule c s = EventLoop_PushCall c s"

text \<open>
  Modelled from the spec: \<open>Logic::NewAppTimer\<close> and \<open>Logic::NewDisplayTimer\<close> are not
  among the sources. Each registers a timer with the given length in milliseconds on its
  own time base: app-time for the first, display-time for the second.
\<close>

definition NewAppTimer :: "int \<Rightarrow> bool \<Rightarrow> LogicCall \<Rightarrow> base_state \<Rightarrow> base_state" where
  "NewAppTimer len rep r s =
     s\<lparr>app_timers := app_timers s @ [\<lparr>timer_length = len, timer_repeat = rep, timer_runnable = r\<rparr>]\<rparr>"

definition NewDisplayTimer :: "int \<Rightarrow> bool \<Rightarrow> LogicCall \<Rightarrow> base_state \<Rightarrow> base_state" where
  "NewDisplayTimer len rep r s =
     s\<lparr>display_timers := display_timers s @ [\<lparr>timer_length = len, timer_repeat = rep, timer_runnable = r\<rparr>]\<rparr>"

text \<open>
  \<open>static_cast<millisecs_t>(length * 1000.0)\<close>, where \<open>length\<close> is a \<open>double\<close> and
  \<open>millisecs_t\<close> is \<open>int64_t\<close>. A \<open>double\<close> is an IEEE 754 binary64 number: a finite
  one is \<open>m * 2 ^ (e - 52)\<close> with an integer \<open>m\<close> of magnitude below \<open>2 ^ 53\<close> and
  \<open>- 1022 \<le> e \<le> 1023\<close>. The delay is given by its value, a real number; a double
  that is infinite or not a number has no such value and is outside the model.

  The product is the exact product rounded to the nearest double, ties to the even
  significand (\<open>binary64_round\<close>): \<open>binary64_exponent\<close> is the exponent of the binade of
  \<open>x\<close>, not below that of the subnormal numbers, and the result is infinite (\<open>None\<close>) when
  the rounded magnitude reaches \<open>2 ^ 1024\<close>. The cast (\<open>double_to_int64\<close>) truncates toward
  zero and is undefined (\<open>None\<close>) when the truncated value is not an \<open>int64_t\<close>.
\<close>

definition round_half_even :: "real \<Rightarrow> int" where
  "round_half_even m =
     (let f = \<lfloor>m\<rfloor>; d = m - real_of_int f
      in if d < 1 / 2 then f
         else if 1 / 2 < d then f + 1
         else if even f then f else f + 1)"

definition binary64_exponent :: "real \<Rightarrow> int" where
  "binary64_exponent x = max \<lfloor>log 2 \<bar>x\<bar>\<rfloor> (- 1022)"

definition binary64_round :: "real \<Rightarrow> real option" where
  "binary64_round x =
     (if x = 0 then Some 0
      else (let q = 2 powi (binary64_exponent x - 52);
                r = real_of_int (round_half_even (x / q)) * q
            in if 2 ^ 1024 \<le> \<bar>r\<bar> then None else Some r))"

definition double_to_int64 :: "real \<Rightarrow> int option" where
  "double_to_int64 r =
     (let t = (if 0 \<le> r then \<lfloor>r\<rfloor> else \<lceil>r\<rceil>)
      in if - (2 ^ 63) \<le> t \<and> t < 2 ^ 63 then Some t else None)"

definition millisecs_of_seconds :: "real \<Rightarrow> int option" where
  "millisecs_of_seconds len =
     (case binary64_round (len * 1000) of
        None \<Rightarrow> None
      | Some r \<Rightarrow> double_to_int64 r)"

subsection \<open>pushcall\<close>

definition other_thread_warning :: string where
  "other_thread_warning =
     ''babase.pushcall() called from the logic thread with from_other_thread set to true. That arg should only be used from other threads.''"

text \<open>
  \<open>PyPushCall\<close> (\<open>python_methods_app.cc\<close>), called by thread \<open>me\<close> with its arguments
  already parsed. The warning's text leaves out the printed callable and file location.
  The assertions hold in debug builds only.
\<close>

definition PyPushCall ::
  "thread_id \<Rightarrow> pyobj \<Rightarrow> bool \<Rightarrow> bool \<Rightarrow> bool \<Rightarrow> bool \<Rightarrow> base_state \<Rightarrow> base_state outcome" where
  "PyPushCall me call_obj from_other_thread suppress_warning other_thread_use_fg_context raw s =
     (if raw then
        Returned (EventLoop_PushCall (RawCall call_obj) (incref call_obj s))
      else if from_other_thread then
        (let s1 = (if \<not> suppress_warning \<and> InLogicThread me s
                   then Log kWarning other_thread_warning s else s);
             s2 = incref call_obj s1
         in Returned (EventLoop_PushCall (OtherThreadCall call_obj other_thread_use_fg_context) s2))
      else if \<not> InLogicThread me s then
        Raised (Exception ''You must use from_other_thread mode.'' kRuntime)
      else
        (let (c, s1) = New_PythonContextCall call_obj s in Returned (Schedule c s1)))"

subsection \<open>apptimer and displaytimer\<close>

text \<open>
  Modelled from the spec: the macro \<open>BA_PRECONDITION\<close> is not among the sources. A
  condition that does not hold is a loud, immediate failure: an exception that names the
  condition is thrown.
\<close>

definition precondition_failed :: "string \<Rightarrow> Exception" where
  "precondition_failed cond = Exception (''Precondition failed: '' @ cond) kRuntime"

text \<open>
  \<open>PyAppTimer\<close> (\<open>python_methods_app.cc\<close>), as written; \<open>len\<close> is the value of the
  parsed argument \<open>length\<close>. Where the conversion to milliseconds is undefined, so is
  the call.
\<close>

definition PyAppTimer :: "thread_id \<Rightarrow> real \<Rightarrow> pyobj \<Rightarrow> base_state \<Rightarrow> base_state outcome" where
  "PyAppTimer me len call_obj s =
     (if \<not> InLogicThread me s then Raised (precondition_failed ''g_base->InLogicThread()'')
      else case EnsureContextAllowsDefaultTimerTypes s of
        Inl e \<Rightarrow> Raised e
      | Inr _ \<Rightarrow>
          if len < 0 then Raised (Exception ''Timer length cannot be < 0.'' kValue)
          else (case millisecs_of_seconds len of
                  None \<Rightarrow> UndefinedBehaviour
                | Some ms \<Rightarrow>
                    (let (r, s1) = New_PythonContextCall call_obj s
                     in Returned (NewDisplayTimer ms False r s1))))"

text \<open>\<open>PyDisplayTimer\<close> (\<open>python_methods_app.cc\<close>), as written.\<close>

definition PyDisplayTimer :: "thread_id \<Rightarrow> real \<Rightarrow> pyobj \<Rightarrow> base_state \<Rightarrow> base_state outcome" where
  "PyDisplayTimer me len call_obj s =
     (if \<not> InLogicThread me s then Raised (precondition_failed ''g_base->InLogicThread()'')
      else case EnsureContextAllowsDefaultTimerTypes s of
        Inl e \<Rightarrow> Raised e
      | Inr _ \<Rightarrow>
          if len < 0 then Raised (Exception ''Timer length cannot be < 0.'' kValue)
          else (case millisecs_of_seconds len of
                  None \<Rightarrow> UndefinedBehaviour
                | Some ms \<Rightarrow>
                    (let (r, s1) = New_PythonContextCall call_obj s
                     in Returned (NewAppTimer ms False r s1))))"

subsection \<open>Running a call under a scoped context\<close>

text \<open>
  Modelled from the spec: \<open>ScopedSetContext\<close> is declared in \<open>context.h\<close>, which is not
  among the sources. On construction it saves the thread's current ambient context and
  installs the new one; its destructor, which runs on every exit path of the scope,
  restores the saved value. The scope's body is any computation on the state; its result
  \<open>'r\<close> can be a sum whose left side is an exception leaving the scope.
\<close>

definition ScopedSetContext ::
  "ContextRef \<Rightarrow> (base_state \<Rightarrow> 'r \<times> base_state) \<Rightarrow> base_state \<Rightarrow> 'r \<times> base_state" where
  "ScopedSetContext c body s =
     (let saved = CurrentContext s;
          (r, s1) = body (SetCurrentContext c s)
      in (r, SetCurrentContext saved s1))"

text \<open>
  \<open>BaseFeatureSet::DoPushObjCall(objset, id)\<close> (\<open>base.cc\<close>). The assertion that the app
  is running holds in debug builds only.
\<close>

definition DoPushObjCall :: "nat \<Rightarrow> base_state \<Rightarrow> base_state" where
  "DoPushObjCall obj_id s = EventLoop_PushCall (ObjCall obj_id) s"

text \<open>
  What the logic thread does when it runs one of the calls: the bodies of the three
  lambdas as written, and for a \<open>PythonContextCall\<close> (modelled from the spec, see above)
  the callable under the context it captured. \<open>py p\<close> is the effect on
  the state of calling the Python object \<open>p\<close> (\<open>PythonRef::Call\<close> reports a Python error
  and returns, so nothing is thrown to the caller); \<open>objs\<close> is the object table of
  \<open>DoPushObjCall\<close>. The temporary \<open>PythonRef(call_obj, kSteal)\<close> takes over the
  reference the submitter added and gives it up when the call is done.
\<close>

fun run_call ::
  "(pyobj \<Rightarrow> base_state \<Rightarrow> base_state) \<Rightarrow> (nat \<Rightarrow> pyobj) \<Rightarrow> LogicCall \<Rightarrow> base_state \<Rightarrow> base_state" where
  "run_call py objs (RawCall call_obj) s = decref call_obj (py call_obj s)"
| "run_call py objs (OtherThreadCall call_obj other_thread_use_fg_context) s =
     snd (ScopedSetContext
            (if other_thread_use_fg_context then GetForegroundContext s else None)
            (\<lambda>t. ((), decref call_obj (py call_obj t))) s)"
| "run_call py objs (ContextCall call_obj c) s =
     snd (ScopedSetContext c (\<lambda>t. ((), py call_obj t)) s)"
| "run_call py objs (ObjCall obj_id) s =
     snd (ScopedSetContext None (\<lambda>t. ((), py (objs obj_id) t)) s)"

section \<open>Widgets and the scripting-side Widget handle\<close>

type_synonym widget_addr = nat
type_synonym weakref_id = nat

text \<open>
  The UI objects: \<open>widgets\<close> are the live \<open>Widget\<close> objects by address, each with what its
  \<open>GetWidgetTypeName()\<close> answers; \<open>weak_refs\<close> are the \<open>Object::WeakRef<Widget>\<close> cells
  allocated so far, a cell being known by its position, each with its target pointer;
  \<open>activations\<close> records the calls of \<open>Widget::Activate\<close>.
\<close>

record ui_state =
  widgets :: "widget_addr \<rightharpoonup> string"
  weak_refs :: "widget_addr option list"
  activations :: "widget_addr list"

definition ui_init :: ui_state where
  "ui_init = \<lparr>widgets = Map.empty, weak_refs = [], activations = []\<rparr>"

text \<open>
  Modelled from the spec: \<open>Object::WeakRef\<close> and the weak-referenceable base are in
  \<open>object.h\<close>, which is not among the sources. A weak reference resolves to the object or
  to "gone"; it never extends the object's lifetime; destroying the object invalidates
  every weak reference to it in the same step. A new cell refers to nothing. An address
  can be used again by a later object once the earlier one is destroyed.
\<close>

definition WeakRef_Get :: "weakref_id \<Rightarrow> ui_state \<Rightarrow> widget_addr option" where
  "WeakRef_Get w s = (if w < length (weak_refs s) then weak_refs s ! w else None)"

definition WeakRef_Exists :: "weakref_id \<Rightarrow> ui_state \<Rightarrow> bool" where
  "WeakRef_Exists w s = (WeakRef_Get w s \<noteq> None)"

definition WeakRef_new :: "ui_state \<Rightarrow> weakref_id \<times> ui_state" where
  "WeakRef_new s = (length (weak_refs s), s\<lparr>weak_refs := weak_refs s @ [None]\<rparr>)"

definition WeakRef_assign :: "weakref_id \<Rightarrow> widget_addr option \<Rightarrow> ui_state \<Rightarrow> ui_state" where
  "WeakRef_assign w target s = s\<lparr>weak_refs := (weak_refs s)[w := target]\<rparr>"

definition Widget_new :: "widget_addr \<Rightarrow> string \<Rightarrow> ui_state \<Rightarrow> ui_state" where
  "Widget_new a type_name s = s\<lparr>widgets := (widgets s)(a \<mapsto> type_name)\<rparr>"

definition Widget_destroy :: "widget_addr \<Rightarrow> ui_state \<Rightarrow> ui_state" where
  "Widget_destroy a s =
     s\<lparr>widgets := (widgets s)(a := None),
       weak_refs := map (\<lambda>t. if t = Some a then None else t) (weak_refs s)\<rparr>"

text \<open>The Python object: its member \<open>widget_\<close> points to the weak reference cell it owns.\<close>

record PythonClassWidget =
  widget_ptr :: weakref_id

text \<open>
  \<open>PythonClassWidget::tp_new\<close> (\<open>python_class_widget.cc\<close>), called by thread \<open>me\<close> whose
  name is \<open>thread_name\<close>. The allocation by \<open>tp_alloc\<close> is taken to succeed. The throw
  is inside \<open>BA_PYTHON_TRY\<close> ... \<open>BA_PYTHON_NEW_CATCH\<close>.
\<close>

definition tp_new ::
  "thread_id \<Rightarrow> string \<Rightarrow> base_state \<Rightarrow> ui_state \<Rightarrow> (PythonClassWidget \<times> ui_state) outcome" where
  "tp_new me thread_name bs s =
     (if \<not> InLogicThread me bs then
        Raised (Exception (''ERROR: '' @ ''bauiv1.Widget''
                  @ '' objects must only be created in the logic thread (current is (''
                  @ thread_name @ '').'') kRuntime)
      else (let (w, s1) = WeakRef_new s in Returned (\<lparr>widget_ptr = w\<rparr>, s1)))"

text \<open>
  \<open>PythonClassWidget::Create\<close>: calls the type (which runs \<open>tp_new\<close>) and points the new
  handle's weak reference at \<open>widget\<close>. A failed call of the type throws
  \<open>babase.Widget creation failed\<close>.
\<close>

definition Create ::
  "thread_id \<Rightarrow> string \<Rightarrow> widget_addr option \<Rightarrow> base_state \<Rightarrow> ui_state
     \<Rightarrow> Exception + PythonClassWidget \<times> ui_state" where
  "Create me thread_name widget bs s =
     (case tp_new me thread_name bs s of
        Returned (py_widget, s1) \<Rightarrow> Inr (py_widget, WeakRef_assign (widget_ptr py_widget) widget s1)
      | _ \<Rightarrow> Inl (Exception ''babase.Widget creation failed'' kRuntime))"

definition nb_bool :: "PythonClassWidget \<Rightarrow> ui_state \<Rightarrow> bool" where
  "nb_bool self s = WeakRef_Exists (widget_ptr self) s"

definition GetWidget :: "PythonClassWidget \<Rightarrow> ui_state \<Rightarrow> Exception + widget_addr" where
  "GetWidget self s =
     (case WeakRef_Get (widget_ptr self) s of
        None \<Rightarrow> Inl (Exception ''Invalid widget'' kRuntime)
      | Some w \<Rightarrow> Inr w)"

text \<open>\<open>PythonClassWidget::Exists\<close>, the method \<open>exists()\<close>.\<close>

definition Widget_exists :: "PythonClassWidget \<Rightarrow> ui_state \<Rightarrow> bool outcome" where
  "Widget_exists self s =
     (case WeakRef_Get (widget_ptr self) s of
        Some w \<Rightarrow> Returned True
      | None \<Rightarrow> Returned False)"

text \<open>
  \<open>PythonClassWidget::GetWidgetType\<close> and \<open>PythonClassWidget::Activate\<close>. Both call a
  method of the object the weak reference resolved to; were that pointer to a destroyed
  object, the call would be a use after free.
\<close>

definition GetWidgetType :: "PythonClassWidget \<Rightarrow> ui_state \<Rightarrow> string outcome" where
  "GetWidgetType self s =
     (case WeakRef_Get (widget_ptr self) s of
        None \<Rightarrow> Raised (Exception [] kWidgetNotFound)
      | Some w \<Rightarrow>
          (case widgets s w of
             Some type_name \<Rightarrow> Returned type_name
           | None \<Rightarrow> UseAfterFree))"

definition Activate :: "PythonClassWidget \<Rightarrow> ui_state \<Rightarrow> ui_state outcome" where
  "Activate self s =
     (case WeakRef_Get (widget_ptr self) s of
        None \<Rightarrow> Raised (Exception [] kWidgetNotFound)
      | Some w \<Rightarrow>
          (case widgets s w of
             Some _ \<Rightarrow> Returned (s\<lparr>activations := activations s @ [w]\<rparr>)
           | None \<Rightarrow> UseAfterFree))"

text \<open>
  \<open>BaseFeatureSet::FeatureSetFromData\<close> (\<open>base.cc\<close>): the way this code base stops the
  process on a structural error. \<open>is_data\<close> is \<open>PythonClassFeatureSetData::Check(obj)\<close>
  and \<open>feature_set\<close> what \<open>FromPyObj(obj).feature_set()\<close> gives.
\<close>

definition FeatureSetFromData :: "bool \<Rightarrow> 'f \<Rightarrow> 'f outcome" where
  "FeatureSetFromData is_data feature_set =
     (if \<not> is_data then Fatal ''Module FeatureSetData attr is an incorrect type.''
      else Returned feature_set)"

text \<open>
  The events on the UI objects, all on the logic thread \<open>lt\<close>: a widget is created at an
  address no live widget has; a live widget is destroyed; native code creates a handle
  for a live widget or for null (\<open>Create\<close>); a script constructs a handle (\<open>tp_new\<close>).
  An event whose condition does not hold cannot happen (\<open>None\<close>).
\<close>

datatype ui_event =
    EvNewWidget widget_addr string
  | EvDestroyWidget widget_addr
  | EvCreateHandle "widget_addr option"
  | EvConstructHandle

fun ui_step :: "thread_id \<Rightarrow> base_state \<Rightarrow> ui_event \<Rightarrow> ui_state \<Rightarrow> ui_state option" where
  "ui_step lt bs (EvNewWidget a type_name) s =
     (if widgets s a = None then Some (Widget_new a type_name s) else None)"
| "ui_step lt bs (EvDestroyWidget a) s =
     (if widgets s a \<noteq> None then Some (Widget_destroy a s) else None)"
| "ui_step lt bs (EvCreateHandle widget) s =
     (if (case widget of None \<Rightarrow> True | Some a \<Rightarrow> widgets s a \<noteq> None)
      then (case Create lt ''logic'' widget bs s of Inr (_, s1) \<Rightarrow> Some s1 | Inl _ \<Rightarrow> None)
      else None)"
| "ui_step lt bs EvConstructHandle s =
     (case tp_new lt ''logic'' bs s of Returned (_, s1) \<Rightarrow> Some s1 | _ \<Rightarrow> None)"

fun ui_run :: "thread_id \<Rightarrow> base_state \<Rightarrow> ui_event list \<Rightarrow> ui_state \<Rightarrow> ui_state option" where
  "ui_run lt bs [] s = Some s"
| "ui_run lt bs (e # es) s =
     (case ui_step lt bs e s of None \<Rightarrow> None | Some s1 \<Rightarrow> ui_run lt bs es s1)"

section \<open>Running the logic event loop\<close>

text \<open>
  Modelled from the spec: \<open>EventLoop\<close> is in \<open>event_loop.cc\<close>, which is not among the
  sources; only calls of \<open>PushCall\<close> on the logic thread's loop are. A loop has one owning
  thread and a FIFO queue of callables. \<open>PushCall\<close>, from any thread, appends under the
  queue lock and returns. The owning thread takes the oldest pending callable and runs it
  to completion before it takes the next. A step of the model is one whole push or one
  whole call: that a push is atomic and that a running call is not interrupted by another
  is how the steps are cut, following the spec, and is not derived from code.

  The trace records what the owning thread did: which thread began and finished which
  call, a call being given with the thread that pushed it.
\<close>

datatype trace_entry =
    Begin thread_id "thread_id \<times> LogicCall"
  | Finish thread_id "thread_id \<times> LogicCall"

text \<open>
  A run of the loop: the engine state \<open>st\<close>, whose \<open>logic_queue\<close> is the loop's queue,
  and three records kept beside it for the sake of the statements (the engine keeps none
  of them): for each pending call the thread that pushed it (\<open>submitters\<close>, in the
  order of the queue), every push made so far in the order the pushes were made
  (\<open>submitted\<close>), and the trace. \<open>loop_start\<close> is a loop that has just been created.
\<close>

record loop_run =
  st :: base_state
  submitters :: "thread_id list"
  submitted :: "(thread_id \<times> LogicCall) list"
  trace :: "trace_entry list"

definition loop_start :: "base_state \<Rightarrow> loop_run" where
  "loop_start s = \<lparr>st = s, submitters = [], submitted = [], trace = []\<rparr>"

text \<open>
  Thread \<open>t\<close> does \<open>f\<close>, which may push: the calls found behind the earlier queue
  afterwards are the ones \<open>f\<close> pushed, and they are recorded as pushed by \<open>t\<close>.
\<close>

definition submit :: "thread_id \<Rightarrow> (base_state \<Rightarrow> base_state) \<Rightarrow> loop_run \<Rightarrow> loop_run" where
  "submit t f r =
     (let s1 = f (st r);
          new = drop (length (logic_queue (st r))) (logic_queue s1)
      in r\<lparr>st := s1,
           submitters := submitters r @ replicate (length new) t,
           submitted := submitted r @ map (Pair t) new\<rparr>)"

text \<open>
  What can happen, in any interleaving: a thread pushes a call to the loop (native code
  calling \<open>PushCall\<close>); a thread calls \<open>pushcall\<close> from Python (\<open>PyPushCall\<close>, which pushes
  unless it raises); or the owning thread runs the oldest pending call.
\<close>

datatype loop_event =
    Push thread_id LogicCall
  | PushCallFrom thread_id pyobj bool bool bool bool
  | RunNext

definition pushcall :: "thread_id \<Rightarrow> pyobj \<Rightarrow> bool \<Rightarrow> bool \<Rightarrow> bool \<Rightarrow> bool \<Rightarrow> base_state \<Rightarrow> base_state" where
  "pushcall t call_obj from_other_thread suppress_warning use_fg raw s =
     (case PyPushCall t call_obj from_other_thread suppress_warning use_fg raw s of
        Returned s1 \<Rightarrow> s1
      | _ \<Rightarrow> s)"

text \<open>
  Modelled from the spec: the loop's processing of its queue is in \<open>event_loop.cc\<close>,
  which is not among the sources.
  The owning thread takes the oldest pending call off the queue, begins it, runs it
  (\<open>run_call\<close>; what the callable itself pushes meanwhile goes to the end of the queue and
  is recorded as pushed by the owning thread), and finishes it. With nothing pending, or
  no loop, nothing happens.
\<close>

definition RunNextCall ::
  "(pyobj \<Rightarrow> base_state \<Rightarrow> base_state) \<Rightarrow> (nat \<Rightarrow> pyobj) \<Rightarrow> loop_run \<Rightarrow> loop_run" where
  "RunNextCall py objs r =
     (case logic_thread (st r) of
        None \<Rightarrow> r
      | Some th \<Rightarrow>
          (case logic_queue (st r) of
             [] \<Rightarrow> r
           | c # rest \<Rightarrow>
               (case submitters r of
                  [] \<Rightarrow> r
                | u # us \<Rightarrow>
                    (let r1 = r\<lparr>st := (st r)\<lparr>logic_queue := rest\<rparr>, submitters := us,
                                 trace := trace r @ [Begin th (u, c)]\<rparr>;
                         r2 = submit th (run_call py objs c) r1
                     in r2\<lparr>trace := trace r2 @ [Finish th (u, c)]\<rparr>))))"

fun loop_step ::
  "(pyobj \<Rightarrow> base_state \<Rightarrow> base_state) \<Rightarrow> (nat \<Rightarrow> pyobj) \<Rightarrow> loop_event \<Rightarrow> loop_run \<Rightarrow> loop_run" where
  "loop_step py objs (Push t c) r = submit t (EventLoop_PushCall c) r"
| "loop_step py objs (PushCallFrom t call_obj from_other_thread suppress_warning use_fg raw) r =
     submit t (pushcall t call_obj from_other_thread suppress_warning use_fg raw) r"
| "loop_step py objs RunNext r = RunNextCall py objs r"

fun run_events ::
  "(pyobj \<Rightarrow> base_state \<Rightarrow> base_state) \<Rightarrow> (nat \<Rightarrow> pyobj) \<Rightarrow> loop_event list \<Rightarrow> loop_run \<Rightarrow> loop_run" where
  "run_events py objs [] r = r"
| "run_events py objs (e # evs) r = run_events py objs evs (loop_step py objs e r)"

text \<open>
  The calls a thread \<open>T\<close> other than the logic thread pushed, read off the events alone:
  a native push pushes its call; \<open>pushcall\<close> from such a thread pushes the raw closure in
  raw mode, the other-thread closure in \<open>from_other_thread\<close> mode, and nothing in the
  default mode, where it raises. \<open>of_thread t\<close> picks the calls pushed by \<open>t\<close>.
\<close>

fun pushed_by :: "thread_id \<Rightarrow> loop_event list \<Rightarrow> LogicCall list" where
  "pushed_by T [] = []"
| "pushed_by T (Push t c # evs) = (if t = T then [c] else []) @ pushed_by T evs"
| "pushed_by T (PushCallFrom t call_obj from_other_thread suppress_warning use_fg raw # evs) =
     (if t = T
      then (if raw then [RawCall call_obj]
            else if from_other_thread then [OtherThreadCall call_obj use_fg]
            else [])
      else []) @ pushed_by T evs"
| "pushed_by T (RunNext # evs) = pushed_by T evs"

definition of_thread :: "thread_id \<Rightarrow> (thread_id \<times> LogicCall) list \<Rightarrow> LogicCall list" where
  "of_thread t calls = map snd (filter (\<lambda>call. fst call = t) calls)"

text \<open>
  The calls that ran, read off the trace: a call counts once it has finished.
  \<open>well_nested t\<close> says the trace is a sequence of begin/finish pairs of one call each,
  all on thread \<open>t\<close>: nothing begins while another call is running.
\<close>

fun finished :: "trace_entry list \<Rightarrow> (thread_id \<times> LogicCall) list" where
  "finished [] = []"
| "finished (Begin t call # es) = finished es"
| "finished (Finish t call # es) = call # finished es"

fun well_nested :: "thread_id \<Rightarrow> trace_entry list \<Rightarrow> bool" where
  "well_nested t [] = True"
| "well_nested t (Begin u call # Finish u' call' # es) =
     (u = t \<and> u' = t \<and> call = call' \<and> well_nested t es)"
| "well_nested t _ = False"

text \<open>
  A callable, or any other action, that reaches the loop only by pushing to it: it leaves
  the loop on its thread and leaves what was pending in place, in order, at the front of
  the queue.
\<close>

definition pushes_only :: "(base_state \<Rightarrow> base_state) \<Rightarrow> bool" where
  "pushes_only f =
     (\<forall>s. logic_thread (f s) = logic_thread s
          \<and> take (length (logic_queue s)) (logic_queue (f s)) = logic_queue s)"

section \<open>Sample states and callables\<close>

text \<open>
  States and a callable on which the properties below are exercised. In \<open>boot_state lt\<close>
  the logic event loop runs on thread \<open>lt\<close>, no context is current and nothing is queued.
  In \<open>restricted_state lt\<close> context 3 is current and does not allow default timer types.
  \<open>probe me\<close> is a Python callable that, when called, pushes itself with
  \<open>pushcall\<close> in its default mode: what it enqueues shows the context it ran under.
\<close>

definition boot_state :: "thread_id \<Rightarrow> base_state" where
  "boot_state lt =
     \<lparr>logic_thread = Some lt, context_ref = None, foreground_context = None,
      default_timers_allowed = (\<lambda>_. True), logic_queue = [], app_timers = [],
      display_timers = [], py_refs = (\<lambda>_. 1), log_lines = []\<rparr>"

definition restricted_state :: "thread_id \<Rightarrow> base_state" where
  "restricted_state lt = (boot_state lt)\<lparr>context_ref := Some 3, default_timers_allowed := (\<lambda>_. False)\<rparr>"

definition probe :: "thread_id \<Rightarrow> pyobj \<Rightarrow> base_state \<Rightarrow> base_state" where
  "probe me p s = (case PyPushCall me p False False False False s of Returned s1 \<Rightarrow> s1 | _ \<Rightarrow> s)"

definition timer_length_error :: Exception where
  "timer_length_error = Exception ''Timer length cannot be < 0.'' kValue"

text \<open>A call that ends the process rather than returning or raising.\<close>

definition hard_stop :: "'a outcome \<Rightarrow> bool" where
  "hard_stop r = (case r of Fatal _ \<Rightarrow> True | _ \<Rightarrow> False)"

text \<open>Every weak reference that has a target has a live one.\<close>

definition refs_valid :: "ui_state \<Rightarrow> bool" where
  "refs_valid s = (\<forall>a. Some a \<in> set (weak_refs s) \<longrightarrow> widgets s a \<noteq> None)"

text \<open>
  What holds of a run after every step: the loop is on its thread, every pending call has
  its submitter, what ran followed by what is pending is what was pushed, and the trace
  is well nested.
\<close>

definition loop_inv :: "thread_id \<Rightarrow> loop_run \<Rightarrow> bool" where
  "loop_inv t0 r =
     (logic_thread (st r) = Some t0
      \<and> length (submitters r) = length (logic_queue (st r))
      \<and> finished (trace r) @ zip (submitters r) (logic_queue (st r)) = submitted r
      \<and> well_nested t0 (trace r))"

section \<open>Properties of PythonRef\<close>

lemma Release_unreferenced: "obj (fst (Release r h)) = None"
  by (simp add: Release_def split: option.splits)

text \<open>
  C6. For a null handle, the non-soft acquisition modes (\<open>kSteal\<close>, \<open>kAcquire\<close>, and the
  methods \<open>Steal\<close> and \<open>Acquire\<close> on any wrapper) fail with the invalid-reference error,
  while the soft modes given the same null succeed and leave an unreferenced wrapper:
  \<open>Get\<close> is null and \<open>Exists\<close> is false. A freshly constructed soft wrapper also leaves
  every reference count as it was.
\<close>

theorem null_handle_hard_fails_soft_unreferenced:
  "PythonRef_ctor None kSteal h = Inl InvalidReferenceError
   \<and> PythonRef_ctor None kAcquire h = Inl InvalidReferenceError
   \<and> Steal None r h = Inl InvalidReferenceError
   \<and> Acquire None r h = Inl InvalidReferenceError
   \<and> PythonRef_ctor None kStealSoft h = Inr (PythonRef_new, h)
   \<and> PythonRef_ctor None kAcquireSoft h = Inr (PythonRef_new, h)
   \<and> Get PythonRef_new = None \<and> \<not> Exists PythonRef_new
   \<and> (\<exists>r' h'. StealSoft None r h = Inr (r', h') \<and> Get r' = None \<and> \<not> Exists r')
   \<and> (\<exists>r' h'. AcquireSoft None r h = Inr (r', h') \<and> Get r' = None \<and> \<not> Exists r')"
  by (simp add: Steal_def Acquire_def StealSoft_def AcquireSoft_def PythonRef_new_def
      Get_def Exists_def Release_def split: option.splits)

theorem null_handle_witness:
  "Stolen None (\<lambda>_. 1) = Inl InvalidReferenceError
   \<and> Acquired None (\<lambda>_. 1) = Inl InvalidReferenceError
   \<and> StolenSoft None (\<lambda>_. 1) = Inr (PythonRef_new, \<lambda>_. 1)
   \<and> AcquiredSoft None (\<lambda>_. 1) = Inr (PythonRef_new, \<lambda>_. 1)"
  using null_handle_hard_fails_soft_unreferenced [of "\<lambda>_. 1" PythonRef_new]
  by (simp add: Stolen_def StolenSoft_def Acquired_def AcquiredSoft_def)

text \<open>
  C7. Copy-assignment never steals. For every pair of wrappers, after \<open>a = b\<close> the
  assigned-to wrapper refers to what \<open>b\<close> refers to. If \<open>b\<close> references an object, \<open>a\<close>
  holds a reference of its own to that object: the object's count has been incremented,
  and what \<open>a\<close> held before has been released. If \<open>b\<close> is unreferenced, \<open>a\<close> has released
  what it held and is unreferenced. \<open>b\<close> itself is a const argument and keeps what it
  holds. Where the object \<open>a\<close> held has a positive count, as it has while a wrapper refers
  to it, the counts obey a conservation law: each object's count changes by one for \<open>a\<close>
  now referring to it and by minus one for \<open>a\<close> no longer referring to it, and by nothing
  else, so the reference \<open>b\<close> holds is still counted and was not handed over.
  \<open>Acquire\<close> and \<open>Release\<close>, which the operator calls, are the ones modelled above.
\<close>

theorem copy_assignment_acquires:
  "\<exists>a' h'. assign a b h = Inr (a', h')
     \<and> Get a' = Get b \<and> Exists a' = Exists b
     \<and> h' = (case Get b of
               Some p \<Rightarrow> (case Get a of None \<Rightarrow> Py_INCREF p h
                                      | Some q \<Rightarrow> Py_DECREF q (Py_INCREF p h))
             | None \<Rightarrow> (case Get a of None \<Rightarrow> h | Some q \<Rightarrow> Py_DECREF q h))
     \<and> ((case Get a of None \<Rightarrow> True | Some q \<Rightarrow> 0 < h q) \<longrightarrow>
          (\<forall>q. int (h' q) = int (h q) + (if Get a' = Some q then 1 else 0)
                                      - (if Get a = Some q then 1 else 0)))"
  by (auto simp: assign_def Acquire_def Release_def Get_def Exists_def Py_INCREF_def Py_DECREF_def
      Let_def split: option.splits)

theorem copy_assignment_witness:
  "assign \<lparr>obj = Some 1\<rparr> \<lparr>obj = Some 2\<rparr> (\<lambda>_. 1) = Inr (\<lparr>obj = Some 2\<rparr>, (\<lambda>_. 1)(2 := 2, 1 := 0))
   \<and> assign \<lparr>obj = Some 1\<rparr> \<lparr>obj = None\<rparr> (\<lambda>_. 1) = Inr (\<lparr>obj = None\<rparr>, (\<lambda>_. 1)(1 := 0))"
  using copy_assignment_acquires [where a = "\<lparr>obj = Some 1\<rparr>" and h = "\<lambda>_. 1" and b = "\<lparr>obj = Some 2\<rparr>"]
        copy_assignment_acquires [where a = "\<lparr>obj = Some 1\<rparr>" and h = "\<lambda>_. 1" and b = "\<lparr>obj = None\<rparr>"]
  by (simp add: assign_def Acquire_def Release_def Get_def Exists_def Py_INCREF_def Py_DECREF_def
      numeral_2_eq_2)

section \<open>Properties of the timer and pushcall entry points\<close>

text \<open>
  The exponent of a number between two consecutive powers of two, and the conversion at
  three delays: one second is 1000 milliseconds; the double nearest to 0.009
  (\<open>5188146770730811 * 2 ^ - 59\<close>, a little below 0.009) gives 9 milliseconds, because the
  product is rounded to the double 9 before the cast; and \<open>2 ^ 60\<close> seconds is more
  milliseconds than an \<open>int64_t\<close> holds.
\<close>

lemma binary64_exponent_eq:
  assumes "2 powi k \<le> \<bar>x\<bar>" and "\<bar>x\<bar> < 2 powi (k + 1)"
  shows "binary64_exponent x = max k (- 1022)"
proof -
  have "(0::real) < 2 powi k"
    by (rule zero_less_power_int) simp
  with assms(1) have pos: "0 < \<bar>x\<bar>"
    by linarith
  have lo: "2 powr real_of_int k \<le> \<bar>x\<bar>"
    using assms(1) by (simp add: powr_real_of_int')
  have "(2::real) powr real_of_int (k + 1) = 2 powi (k + 1)"
    by (rule powr_real_of_int') simp_all
  with assms(2) have hi: "\<bar>x\<bar> < 2 powr real_of_int (k + 1)"
    by (simp only:)
  have "\<lfloor>log 2 \<bar>x\<bar>\<rfloor> = k"
    using floor_log_eq_powr_iff [of "\<bar>x\<bar>" 2 k] pos lo hi by simp
  then show ?thesis by (simp add: binary64_exponent_def)
qed

lemma millisecs_of_one_second: "millisecs_of_seconds 1 = Some 1000"
proof -
  have e: "binary64_exponent 1000 = 9"
    using binary64_exponent_eq [of 9 1000] by simp
  show ?thesis
    by (simp add: millisecs_of_seconds_def binary64_round_def e round_half_even_def
        double_to_int64_def Let_def)
qed

lemma millisecs_of_nine_thousandths:
  "millisecs_of_seconds (5188146770730811 / 2 ^ 59) = Some 9"
proof -
  have e: "binary64_exponent (5188146770730811 / 2 ^ 59 * 1000) = 3"
    using binary64_exponent_eq [of 3 "5188146770730811 / 2 ^ 59 * 1000"] by simp
  have q: "(5188146770730811 / 2 ^ 59 * 1000) / ((2::real) powi (3 - 52)) = 5188146770730811000 / 1024"
    by simp
  have f: "\<lfloor>(5188146770730811000::real) / 1024\<rfloor> = 5066549580791807"
    by (simp add: floor_eq_iff)
  have r: "round_half_even (5188146770730811000 / 1024) = 5066549580791808"
    by (simp add: round_half_even_def f Let_def)
  have b: "binary64_round (5188146770730811 / 2 ^ 59 * 1000) = Some 9"
    unfolding binary64_round_def e Let_def q r by simp
  show ?thesis
    unfolding millisecs_of_seconds_def b by (simp add: double_to_int64_def)
qed

lemma millisecs_beyond_int64: "millisecs_of_seconds (2 ^ 60) = None"
proof -
  have e: "binary64_exponent (2 ^ 60 * 1000) = 69"
    using binary64_exponent_eq [of 69 "2 ^ 60 * 1000"] by simp
  have q: "(2 ^ 60 * 1000) / ((2::real) powi (69 - 52)) = 2 ^ 43 * 1000"
    by simp
  have r: "round_half_even (2 ^ 43 * 1000) = 2 ^ 43 * 1000"
    by (simp add: round_half_even_def Let_def)
  have b: "binary64_round (2 ^ 60 * 1000) = Some (2 ^ 60 * 1000)"
    unfolding binary64_round_def e Let_def q r by simp
  show ?thesis
    unfolding millisecs_of_seconds_def b by (simp add: double_to_int64_def)
qed

text \<open>
  C1. The claim is that \<open>apptimer\<close> schedules on the app-time base and \<open>displaytimer\<close>
  on the display-time base, as their doc strings say. The code does the opposite:
  \<open>PyAppTimer\<close> registers its timer with \<open>NewDisplayTimer\<close> and \<open>PyDisplayTimer\<close> with
  \<open>NewAppTimer\<close>. Evaluated on the logic thread with a one second delay and callable 7:
  \<open>apptimer\<close> leaves the app-time timers empty and adds a display-time timer, and
  \<open>displaytimer\<close> does the reverse.
\<close>

theorem apptimer_lands_on_display_time:
  "PyAppTimer 0 1 7 (boot_state 0) =
     Returned ((boot_state 0)\<lparr>display_timers :=
        [\<lparr>timer_length = 1000, timer_repeat = False, timer_runnable = ContextCall 7 None\<rparr>],
        py_refs := Py_INCREF 7 (\<lambda>_. 1)\<rparr>)
   \<and> PyDisplayTimer 0 1 7 (boot_state 0) =
     Returned ((boot_state 0)\<lparr>app_timers :=
        [\<lparr>timer_length = 1000, timer_repeat = False, timer_runnable = ContextCall 7 None\<rparr>],
        py_refs := Py_INCREF 7 (\<lambda>_. 1)\<rparr>)"
  by (simp add: PyAppTimer_def PyDisplayTimer_def boot_state_def InLogicThread_def
      EnsureContextAllowsDefaultTimerTypes_def CurrentContext_def New_PythonContextCall_def
      NewDisplayTimer_def NewAppTimer_def millisecs_of_one_second incref_def)

text \<open>
  The exchange does not depend on the input: whenever \<open>apptimer\<close> returns, the app-time
  timers are as before and one display-time timer has been added, and the reverse for
  \<open>displaytimer\<close>.
\<close>

lemma timers_exchanged:
  "PyAppTimer me len call_obj s = Returned s1 \<Longrightarrow>
     app_timers s1 = app_timers s \<and> length (display_timers s1) = Suc (length (display_timers s))"
  "PyDisplayTimer me len call_obj s = Returned s2 \<Longrightarrow>
     display_timers s2 = display_timers s \<and> length (app_timers s2) = Suc (length (app_timers s))"
  by (auto simp: PyAppTimer_def PyDisplayTimer_def New_PythonContextCall_def NewDisplayTimer_def
      NewAppTimer_def incref_def split: if_splits sum.splits option.splits)

text \<open>
  C8, as claimed, fails: a negative delay does not always end in the value error. The
  checks that come first in \<open>PyAppTimer\<close> and \<open>PyDisplayTimer\<close> raise their own
  exceptions: in a context that does not allow default timer types the call with delay
  \<open>-1\<close> raises the context's exception, and off the logic thread it raises the failed
  precondition.
\<close>

theorem negative_delay_other_error_counterexample:
  "PyAppTimer 0 (- 1) 7 (restricted_state 0) = Raised (Exception default_timer_types_message kRuntime)
   \<and> PyAppTimer 0 (- 1) 7 (restricted_state 0) \<noteq> Raised timer_length_error
   \<and> PyDisplayTimer 1 (- 1) 7 (boot_state 0) = Raised (precondition_failed ''g_base->InLogicThread()'')
   \<and> PyDisplayTimer 1 (- 1) 7 (boot_state 0) \<noteq> Raised timer_length_error"
  by (simp add: PyAppTimer_def PyDisplayTimer_def restricted_state_def boot_state_def
      InLogicThread_def EnsureContextAllowsDefaultTimerTypes_def CurrentContext_def
      timer_length_error_def precondition_failed_def)

text \<open>
  C8, amended. On the logic thread and in a context that allows default timer types (or
  with no current context), every negative delay makes \<open>apptimer\<close> and \<open>displaytimer\<close>
  raise the value error \<open>Timer length cannot be < 0.\<close>. In every state, a negative delay
  makes the call raise some exception, so no timer is scheduled and the delay is not
  clamped to zero. For every delay that is not negative the value error is not raised.
\<close>

theorem negative_delay_rejected:
  "(InLogicThread me s \<and> EnsureContextAllowsDefaultTimerTypes s = Inr () \<and> len < 0 \<longrightarrow>
      PyAppTimer me len call_obj s = Raised timer_length_error
      \<and> PyDisplayTimer me len call_obj s = Raised timer_length_error)
   \<and> (len < 0 \<longrightarrow>
      (\<exists>e. PyAppTimer me len call_obj s = Raised e)
      \<and> (\<exists>e. PyDisplayTimer me len call_obj s = Raised e))
   \<and> (0 \<le> len \<longrightarrow>
      PyAppTimer me len call_obj s \<noteq> Raised timer_length_error
      \<and> PyDisplayTimer me len call_obj s \<noteq> Raised timer_length_error)"
  by (auto simp: PyAppTimer_def PyDisplayTimer_def timer_length_error_def precondition_failed_def
      EnsureContextAllowsDefaultTimerTypes_def New_PythonContextCall_def
      split: sum.splits option.splits if_splits)

theorem negative_delay_rejected_witness:
  "PyAppTimer 0 (- 1) 7 (boot_state 0) = Raised timer_length_error
   \<and> PyDisplayTimer 0 (- 1) 7 (boot_state 0) = Raised timer_length_error
   \<and> PyAppTimer 0 0 7 (boot_state 0) \<noteq> Raised timer_length_error"
  using negative_delay_rejected [of 0 "boot_state 0" "- 1" 7]
        negative_delay_rejected [of 0 "boot_state 0" 0 7]
  by (simp add: boot_state_def InLogicThread_def EnsureContextAllowsDefaultTimerTypes_def
      CurrentContext_def)

text \<open>
  Which exception a negative delay ends in, in every state: off the logic thread the
  failed precondition, otherwise the context's exception where the context does not allow
  default timer types, otherwise the value error.
\<close>

lemma negative_delay_exception:
  assumes "len < 0"
  shows "PyAppTimer me len call_obj s =
           (if \<not> InLogicThread me s then Raised (precondition_failed ''g_base->InLogicThread()'')
            else if EnsureContextAllowsDefaultTimerTypes s = Inr () then Raised timer_length_error
            else Raised (Exception default_timer_types_message kRuntime))"
    and "PyDisplayTimer me len call_obj s =
           (if \<not> InLogicThread me s then Raised (precondition_failed ''g_base->InLogicThread()'')
            else if EnsureContextAllowsDefaultTimerTypes s = Inr () then Raised timer_length_error
            else Raised (Exception default_timer_types_message kRuntime))"
  using assms
  by (auto simp: PyAppTimer_def PyDisplayTimer_def timer_length_error_def
      EnsureContextAllowsDefaultTimerTypes_def split: option.splits sum.splits)

text \<open>
  C10. \<open>pushcall\<close> in its default mode (\<open>raw\<close> and \<open>from_other_thread\<close> both false),
  called from a thread that is not the logic thread, raises
  \<open>You must use from_other_thread mode.\<close>; nothing is enqueued, the state is the one before
  the call. Called on the logic thread it enqueues the callable as a context call holding
  the context current at that moment (and a reference to the callable): the context is
  captured when the call is submitted.
\<close>

theorem pushcall_default_mode:
  "(\<not> InLogicThread me s \<longrightarrow>
      PyPushCall me call_obj False suppress_warning use_fg False s
        = Raised (Exception ''You must use from_other_thread mode.'' kRuntime))
   \<and> (InLogicThread me s \<longrightarrow>
      PyPushCall me call_obj False suppress_warning use_fg False s
        = Returned (s\<lparr>logic_queue := logic_queue s @ [ContextCall call_obj (CurrentContext s)],
                      py_refs := Py_INCREF call_obj (py_refs s)\<rparr>))"
  by (simp add: PyPushCall_def New_PythonContextCall_def Schedule_def EventLoop_PushCall_def
      incref_def)

theorem pushcall_default_mode_witness:
  "PyPushCall 1 7 False False False False (boot_state 0)
     = Raised (Exception ''You must use from_other_thread mode.'' kRuntime)
   \<and> PyPushCall 0 7 False False False False (restricted_state 0)
     = Returned ((restricted_state 0)\<lparr>logic_queue := [ContextCall 7 (Some 3)],
                   py_refs := Py_INCREF 7 (\<lambda>_. 1)\<rparr>)"
  using pushcall_default_mode [of 1 "boot_state 0" 7 False False]
        pushcall_default_mode [of 0 "restricted_state 0" 7 False False]
  by (simp add: boot_state_def restricted_state_def InLogicThread_def CurrentContext_def)

text \<open>
  C5. A call submitted with \<open>pushcall(call, from_other_thread=True,
  other_thread_use_fg_context=use_fg)\<close>, \<open>raw\<close> left at its default, is enqueued as a
  closure that holds the flag, not a context. When the logic thread runs it in a state \<open>t\<close>, the callable runs under the
  foreground context of \<open>t\<close>, the state at execution, if the flag is set, and under the
  empty context if it is not; the context current in \<open>t\<close> is restored afterwards. The
  foreground context at submission plays no part: in the example after the theorem it is
  1 at submission and 2 at execution, and the callable sees 2.
\<close>

theorem foreground_context_resolved_when_run:
  "\<exists>s1. PyPushCall me call_obj True suppress_warning use_fg False s = Returned s1
      \<and> logic_queue s1 = logic_queue s @ [OtherThreadCall call_obj use_fg]
      \<and> (\<forall>t. run_call py objs (last (logic_queue s1)) t
             = SetCurrentContext (CurrentContext t)
                 (decref call_obj
                    (py call_obj
                       (SetCurrentContext (if use_fg then GetForegroundContext t else None) t))))"
  by (simp add: PyPushCall_def EventLoop_PushCall_def incref_def Log_def ScopedSetContext_def
      Let_def split: prod.splits)

theorem foreground_context_witness:
  "(case PyPushCall 5 7 True False True False ((boot_state 0)\<lparr>foreground_context := Some 1\<rparr>) of
      Returned s1 \<Rightarrow>
        logic_queue (run_call (probe 0) (\<lambda>_. 0) (last (logic_queue s1))
                       (s1\<lparr>foreground_context := Some 2, context_ref := Some 4\<rparr>))
          = [OtherThreadCall 7 True, ContextCall 7 (Some 2)]
    | _ \<Rightarrow> False)"
proof -
  obtain s1 where
    pushed: "PyPushCall 5 7 True False True False ((boot_state 0)\<lparr>foreground_context := Some 1\<rparr>)
               = Returned s1"
    and queue: "logic_queue s1
               = logic_queue ((boot_state 0)\<lparr>foreground_context := Some 1\<rparr>) @ [OtherThreadCall 7 True]"
    and run: "\<forall>t. run_call (probe 0) (\<lambda>_. 0) (last (logic_queue s1)) t
               = SetCurrentContext (CurrentContext t)
                   (decref 7 (probe 0 7 (SetCurrentContext (if True then GetForegroundContext t else None) t)))"
    using foreground_context_resolved_when_run
      [of 5 7 False True "(boot_state 0)\<lparr>foreground_context := Some 1\<rparr>" "probe 0" "\<lambda>_. 0"]
    by blast
  have thread: "logic_thread s1 = Some 0"
    using pushed
    by (auto simp: PyPushCall_def boot_state_def InLogicThread_def incref_def
        EventLoop_PushCall_def)
  let ?t = "s1\<lparr>foreground_context := Some 2, context_ref := Some 4\<rparr>"
  have ran: "run_call (probe 0) (\<lambda>_. 0) (last (logic_queue s1)) ?t
               = SetCurrentContext (CurrentContext ?t)
                   (decref 7 (probe 0 7 (SetCurrentContext (GetForegroundContext ?t) ?t)))"
    using run by simp
  have seen: "logic_queue (SetCurrentContext (CurrentContext ?t)
                   (decref 7 (probe 0 7 (SetCurrentContext (GetForegroundContext ?t) ?t))))
               = [OtherThreadCall 7 True, ContextCall 7 (Some 2)]"
    using queue thread
    by (simp add: probe_def PyPushCall_def boot_state_def InLogicThread_def
        SetCurrentContext_def GetForegroundContext_def CurrentContext_def decref_def incref_def
        New_PythonContextCall_def Schedule_def EventLoop_PushCall_def)
  show ?thesis
    unfolding pushed by (simp only: ran seen outcome.case)
qed

section \<open>Properties of the scoped context\<close>

lemma ScopedSetContext_restores:
  "CurrentContext (snd (ScopedSetContext c body s)) = CurrentContext s"
  by (simp add: ScopedSetContext_def SetCurrentContext_def CurrentContext_def split: prod.splits)

text \<open>
  C4. Whatever the body of a \<open>ScopedSetContext\<close> scope does (it may set the context
  itself, open further scopes, or leave with an exception: its result type is arbitrary),
  the ambient context after the scope equals the one before it. The same holds for any
  number of scopes opened one inside the other. Inside a scope the body finds the scope's
  context installed, the innermost one when scopes nest, and when an inner scope has
  exited the enclosing scope's context is current again. The lambda of \<open>DoPushObjCall\<close>
  runs its callable in such a scope, so it leaves the ambient context as it found it.
\<close>

theorem scoped_context_round_trip:
  "CurrentContext (snd (ScopedSetContext c body s)) = CurrentContext s
   \<and> CurrentContext (snd (foldr ScopedSetContext (c # cs) body s)) = CurrentContext s
   \<and> fst (ScopedSetContext c (\<lambda>t. (CurrentContext t, t)) s) = c
   \<and> fst (foldr ScopedSetContext (cs @ [c]) (\<lambda>t. (CurrentContext t, t)) s) = c
   \<and> fst (ScopedSetContext c (\<lambda>t. (CurrentContext (snd (ScopedSetContext c' body t)), t)) s) = c
   \<and> CurrentContext (run_call py objs (ObjCall obj_id) s) = CurrentContext s"
proof -
  have many: "CurrentContext (snd (foldr ScopedSetContext (c # cs) body s)) = CurrentContext s"
    by (simp add: ScopedSetContext_restores)
  have seen: "fst (ScopedSetContext c (\<lambda>t. (CurrentContext t, t)) t) = c" for c t
    by (simp add: ScopedSetContext_def SetCurrentContext_def CurrentContext_def)
  have inner: "fst (foldr ScopedSetContext (cs @ [c]) (\<lambda>t. (CurrentContext t, t)) t) = c" for t
  proof (induction cs arbitrary: t)
    case Nil
    show ?case by (simp add: seen)
  next
    case (Cons a cs)
    have "fst (ScopedSetContext a b t) = fst (b (SetCurrentContext a t))"
      for b :: "base_state \<Rightarrow> ContextRef \<times> base_state"
      by (simp add: ScopedSetContext_def split: prod.splits)
    then show ?case using Cons.IH by simp
  qed
  have again: "fst (ScopedSetContext c (\<lambda>t. (CurrentContext (snd (ScopedSetContext c' body t)), t)) s) = c"
    by (simp add: ScopedSetContext_def SetCurrentContext_def CurrentContext_def split: prod.splits)
  show ?thesis
    using many seen inner again by (simp add: ScopedSetContext_restores)
qed

theorem scoped_context_witness:
  "CurrentContext (snd (ScopedSetContext (Some 1)
      (\<lambda>t. (Inl timer_length_error :: Exception + unit, SetCurrentContext (Some 9) t))
      (restricted_state 0))) = Some 3"
  using scoped_context_round_trip
    [where c = "Some 1" and s = "restricted_state 0"
       and body = "\<lambda>t. (Inl timer_length_error :: Exception + unit, SetCurrentContext (Some 9) t)"]
  by (simp add: restricted_state_def boot_state_def CurrentContext_def)

section \<open>Properties of the Widget handle\<close>

lemma refs_valid_init: "refs_valid ui_init"
  by (simp add: refs_valid_def ui_init_def)

lemma tp_new_Returned:
  "tp_new me nm bs s = Returned (pw, s1) \<Longrightarrow>
     widget_ptr pw = length (weak_refs s) \<and> weak_refs s1 = weak_refs s @ [None]
     \<and> widgets s1 = widgets s"
  by (auto simp: tp_new_def WeakRef_new_def split: if_splits)

lemma Create_Inr:
  "Create me nm widget bs s = Inr (pw, s1) \<Longrightarrow>
     widget_ptr pw = length (weak_refs s) \<and> weak_refs s1 = weak_refs s @ [widget]
     \<and> widgets s1 = widgets s"
  by (auto simp: Create_def WeakRef_assign_def split: outcome.splits dest!: tp_new_Returned)

lemma ui_step_valid:
  assumes "refs_valid s" and "ui_step lt bs e s = Some s1"
  shows "refs_valid s1"
proof (cases e)
  case (EvNewWidget a nm)
  with assms show ?thesis
    by (auto simp: refs_valid_def Widget_new_def split: if_splits)
next
  case (EvDestroyWidget a)
  with assms show ?thesis
    by (auto simp: refs_valid_def Widget_destroy_def split: if_splits)
next
  case (EvCreateHandle widget)
  with assms show ?thesis
    by (auto simp: refs_valid_def split: if_splits sum.splits option.splits dest!: Create_Inr)
next
  case EvConstructHandle
  with assms show ?thesis
    by (auto simp: refs_valid_def split: outcome.splits dest!: tp_new_Returned)
qed

lemma ui_run_valid:
  "refs_valid s \<Longrightarrow> ui_run lt bs es s = Some s1 \<Longrightarrow> refs_valid s1"
  by (induction es arbitrary: s) (auto split: option.splits dest: ui_step_valid)

lemma ui_step_gone:
  assumes "w < length (weak_refs s)" and "weak_refs s ! w = None"
    and "ui_step lt bs e s = Some s1"
  shows "w < length (weak_refs s1) \<and> weak_refs s1 ! w = None"
proof (cases e)
  case (EvNewWidget a nm)
  with assms show ?thesis by (auto simp: Widget_new_def split: if_splits)
next
  case (EvDestroyWidget a)
  with assms show ?thesis by (auto simp: Widget_destroy_def split: if_splits)
next
  case (EvCreateHandle widget)
  with assms show ?thesis
    by (auto simp: nth_append split: if_splits sum.splits dest!: Create_Inr)
next
  case EvConstructHandle
  with assms show ?thesis
    by (auto simp: nth_append split: outcome.splits dest!: tp_new_Returned)
qed

lemma ui_run_gone:
  "w < length (weak_refs s) \<Longrightarrow> weak_refs s ! w = None \<Longrightarrow> ui_run lt bs es s = Some s1
     \<Longrightarrow> w < length (weak_refs s1) \<and> weak_refs s1 ! w = None"
proof (induction es arbitrary: s)
  case Nil
  then show ?case by simp
next
  case (Cons e es)
  from Cons.prems obtain s2 where st: "ui_step lt bs e s = Some s2" and rn: "ui_run lt bs es s2 = Some s1"
    by (auto split: option.splits)
  from ui_step_gone [OF Cons.prems(1,2) st] Cons.IH [OF _ _ rn] show ?case by blast
qed

lemma WeakRef_Get_Some:
  "WeakRef_Get w s = Some a \<longleftrightarrow> w < length (weak_refs s) \<and> weak_refs s ! w = Some a"
  by (simp add: WeakRef_Get_def)

lemma destroy_gone:
  "w < length (weak_refs s) \<Longrightarrow> weak_refs s ! w = Some a \<Longrightarrow>
     w < length (weak_refs (Widget_destroy a s)) \<and> weak_refs (Widget_destroy a s) ! w = None"
  by (simp add: Widget_destroy_def)

text \<open>
  C2. Take any state the UI objects can reach and a weak reference \<open>w\<close> that resolves to
  \<open>a\<close> there. Before \<open>a\<close> is destroyed, \<open>a\<close> is a live widget and \<open>w\<close> resolves to it:
  \<open>exists()\<close> and the boolean operator give true, \<open>GetWidget\<close> gives \<open>a\<close>, and the methods
  reach a live object. After \<open>a\<close> is destroyed, and after whatever events follow (creating
  a new widget at the same address included), every resolution of \<open>w\<close> finds nothing:
  \<open>Get\<close> is null, \<open>exists()\<close> and the boolean operator give false, \<open>GetWidget\<close> throws
  \<open>Invalid widget\<close>, and the methods raise the widget-not-found error. There is no third
  state: in a reachable state every weak reference is null or resolves to a live widget.
  The events are whole operations of the logic thread; what two threads do inside one
  operation at the same time is outside this model.
\<close>

theorem weak_ref_object_or_gone:
  assumes reach: "ui_run lt bs es ui_init = Some s"
    and target: "WeakRef_Get w s = Some a"
  shows "widgets s a \<noteq> None
    \<and> Widget_exists \<lparr>widget_ptr = w\<rparr> s = Returned True
    \<and> nb_bool \<lparr>widget_ptr = w\<rparr> s
    \<and> GetWidget \<lparr>widget_ptr = w\<rparr> s = Inr a
    \<and> (\<exists>type_name. GetWidgetType \<lparr>widget_ptr = w\<rparr> s = Returned type_name)
    \<and> (\<forall>es' s'. ui_run lt bs (EvDestroyWidget a # es') s = Some s' \<longrightarrow>
          WeakRef_Get w s' = None
          \<and> Widget_exists \<lparr>widget_ptr = w\<rparr> s' = Returned False
          \<and> \<not> nb_bool \<lparr>widget_ptr = w\<rparr> s'
          \<and> GetWidget \<lparr>widget_ptr = w\<rparr> s' = Inl (Exception ''Invalid widget'' kRuntime)
          \<and> GetWidgetType \<lparr>widget_ptr = w\<rparr> s' = Raised (Exception [] kWidgetNotFound)
          \<and> Activate \<lparr>widget_ptr = w\<rparr> s' = Raised (Exception [] kWidgetNotFound))
    \<and> (\<forall>w'. WeakRef_Get w' s = None
            \<or> (\<exists>a'. WeakRef_Get w' s = Some a' \<and> widgets s a' \<noteq> None))"
proof -
  have valid: "refs_valid s"
    using ui_run_valid [OF refs_valid_init reach] .
  from target have w: "w < length (weak_refs s)" "weak_refs s ! w = Some a"
    by (simp_all add: WeakRef_Get_Some)
  have live: "widgets s a \<noteq> None"
    using valid w unfolding refs_valid_def by (metis nth_mem)
  have before: "Widget_exists \<lparr>widget_ptr = w\<rparr> s = Returned True"
    "nb_bool \<lparr>widget_ptr = w\<rparr> s" "GetWidget \<lparr>widget_ptr = w\<rparr> s = Inr a"
    "\<exists>type_name. GetWidgetType \<lparr>widget_ptr = w\<rparr> s = Returned type_name"
    using target live
    by (auto simp: Widget_exists_def nb_bool_def WeakRef_Exists_def GetWidget_def GetWidgetType_def)
  have after: "WeakRef_Get w s' = None
          \<and> Widget_exists \<lparr>widget_ptr = w\<rparr> s' = Returned False
          \<and> \<not> nb_bool \<lparr>widget_ptr = w\<rparr> s'
          \<and> GetWidget \<lparr>widget_ptr = w\<rparr> s' = Inl (Exception ''Invalid widget'' kRuntime)
          \<and> GetWidgetType \<lparr>widget_ptr = w\<rparr> s' = Raised (Exception [] kWidgetNotFound)
          \<and> Activate \<lparr>widget_ptr = w\<rparr> s' = Raised (Exception [] kWidgetNotFound)"
    if run: "ui_run lt bs (EvDestroyWidget a # es') s = Some s'" for es' s'
  proof -
    from run live have rest: "ui_run lt bs es' (Widget_destroy a s) = Some s'"
      by (simp split: option.splits if_splits)
    have "w < length (weak_refs s') \<and> weak_refs s' ! w = None"
      using ui_run_gone [OF _ _ rest] destroy_gone [OF w] by blast
    then have "WeakRef_Get w s' = None"
      by (simp add: WeakRef_Get_def)
    then show ?thesis
      by (simp add: Widget_exists_def nb_bool_def WeakRef_Exists_def GetWidget_def
          GetWidgetType_def Activate_def)
  qed
  have third: "WeakRef_Get w' s = None
            \<or> (\<exists>a'. WeakRef_Get w' s = Some a' \<and> widgets s a' \<noteq> None)" for w'
    using valid unfolding refs_valid_def WeakRef_Get_def by (metis nth_mem option.exhaust)
  show ?thesis
    using live before after third by blast
qed

theorem weak_ref_witness:
  "(case ui_run 0 (boot_state 0)
           [EvNewWidget 10 ''button'', EvCreateHandle (Some 10),
            EvDestroyWidget 10, EvNewWidget 10 ''text''] ui_init of
      Some s' \<Rightarrow> Widget_exists \<lparr>widget_ptr = 0\<rparr> s' = Returned False \<and> widgets s' 10 = Some ''text''
    | None \<Rightarrow> False)"
proof -
  let ?s = "\<lparr>widgets = [10 \<mapsto> ''button''], weak_refs = [Some 10], activations = []\<rparr>"
  have reach: "ui_run 0 (boot_state 0) [EvNewWidget 10 ''button'', EvCreateHandle (Some 10)] ui_init = Some ?s"
    by (simp add: ui_init_def Widget_new_def Create_def tp_new_def boot_state_def InLogicThread_def
        WeakRef_new_def WeakRef_assign_def)
  have target: "WeakRef_Get 0 ?s = Some 10"
    by (simp add: WeakRef_Get_def)
  have later: "ui_run 0 (boot_state 0) (EvDestroyWidget 10 # [EvNewWidget 10 ''text'']) ?s
      = Some \<lparr>widgets = [10 \<mapsto> ''text''], weak_refs = [None], activations = []\<rparr>"
    by (simp add: Widget_new_def Widget_destroy_def)
  have whole: "ui_run 0 (boot_state 0)
           [EvNewWidget 10 ''button'', EvCreateHandle (Some 10),
            EvDestroyWidget 10, EvNewWidget 10 ''text''] ui_init
        = Some \<lparr>widgets = [10 \<mapsto> ''text''], weak_refs = [None], activations = []\<rparr>"
    by (simp add: ui_init_def Widget_new_def Create_def tp_new_def boot_state_def InLogicThread_def
        WeakRef_new_def WeakRef_assign_def Widget_destroy_def)
  from weak_ref_object_or_gone [OF reach target] later
  have "Widget_exists \<lparr>widget_ptr = 0\<rparr> \<lparr>widgets = [10 \<mapsto> ''text''], weak_refs = [None], activations = []\<rparr>
          = Returned False"
    by blast
  then show ?thesis
    unfolding whole by simp
qed

text \<open>
  C9, as claimed, fails: constructing a Widget handle off the logic thread is not a hard
  stop. \<open>tp_new\<close> throws an \<open>Exception\<close> inside its try/catch pair, so the caller gets
  an exception it can handle and the process goes on; a hard stop is what
  \<open>FeatureSetFromData\<close> does with \<open>FatalError\<close>.
\<close>

theorem widget_handle_off_thread_counterexample:
  "tp_new 1 ''audio'' (boot_state 0) ui_init
     = Raised (Exception ''ERROR: bauiv1.Widget objects must only be created in the logic thread (current is (audio).'' kRuntime)
   \<and> \<not> hard_stop (tp_new 1 ''audio'' (boot_state 0) ui_init)
   \<and> hard_stop (FeatureSetFromData False (0::nat))"
  by (simp add: tp_new_def boot_state_def InLogicThread_def hard_stop_def FeatureSetFromData_def)

text \<open>
  C9, amended. Constructing a Widget handle from any thread other than the logic thread
  fails at once and never yields an object: \<open>tp_new\<close> raises an exception that names the
  calling thread, and \<open>Create\<close>, which constructs through \<open>tp_new\<close>, throws. The failure
  is an exception handed to the caller, not a stop of the process.
\<close>

theorem widget_handle_off_thread_raises:
  "\<not> InLogicThread me bs \<longrightarrow>
     tp_new me thread_name bs s
       = Raised (Exception (''ERROR: bauiv1.Widget objects must only be created in the logic thread (current is (''
                   @ thread_name @ '').'') kRuntime)
     \<and> (\<forall>r. tp_new me thread_name bs s \<noteq> Returned r)
     \<and> \<not> hard_stop (tp_new me thread_name bs s)
     \<and> Create me thread_name widget bs s = Inl (Exception ''babase.Widget creation failed'' kRuntime)"
  by (simp add: tp_new_def hard_stop_def Create_def)

theorem widget_handle_off_thread_witness:
  "tp_new 1 ''audio'' (boot_state 0) ui_init
     = Raised (Exception ''ERROR: bauiv1.Widget objects must only be created in the logic thread (current is (audio).'' kRuntime)
   \<and> Create 1 ''audio'' (Some 10) (boot_state 0) ui_init
     = Inl (Exception ''babase.Widget creation failed'' kRuntime)"
  using widget_handle_off_thread_raises [of 1 "boot_state 0" "''audio''" ui_init "Some 10"]
  by (simp add: boot_state_def InLogicThread_def)

section \<open>Properties of the event loop\<close>

lemma finished_append: "finished (xs @ ys) = finished xs @ finished ys"
  by (induction xs rule: finished.induct) simp_all

lemma well_nested_snoc:
  "well_nested t xs \<Longrightarrow> well_nested t (xs @ [Begin t call, Finish t call])"
  by (induction t xs rule: well_nested.induct) simp_all

lemma of_thread_append: "of_thread t (xs @ ys) = of_thread t xs @ of_thread t ys"
  by (simp add: of_thread_def)

lemma pushes_only_queue:
  assumes "pushes_only f"
  shows "logic_queue (f s) = logic_queue s @ drop (length (logic_queue s)) (logic_queue (f s))"
    and "logic_thread (f s) = logic_thread s"
proof -
  from assms have t: "take (length (logic_queue s)) (logic_queue (f s)) = logic_queue s"
    and th: "logic_thread (f s) = logic_thread s"
    by (simp_all add: pushes_only_def)
  show "logic_queue (f s) = logic_queue s @ drop (length (logic_queue s)) (logic_queue (f s))"
    using append_take_drop_id [of "length (logic_queue s)" "logic_queue (f s)"] t by simp
  show "logic_thread (f s) = logic_thread s" by (rule th)
qed

lemma pushes_onlyI:
  assumes "\<And>s. logic_thread (f s) = logic_thread s"
    and "\<And>s. \<exists>new. logic_queue (f s) = logic_queue s @ new"
  shows "pushes_only f"
  unfolding pushes_only_def
proof (intro allI conjI)
  fix s
  show "logic_thread (f s) = logic_thread s" by (rule assms(1))
  from assms(2) obtain new where "logic_queue (f s) = logic_queue s @ new" by blast
  then show "take (length (logic_queue s)) (logic_queue (f s)) = logic_queue s" by simp
qed

lemma pushes_only_PushCall: "pushes_only (EventLoop_PushCall c)"
  by (rule pushes_onlyI) (simp_all add: EventLoop_PushCall_def)

lemma pushes_only_pushcall: "pushes_only (pushcall t call_obj a b c d)"
  by (rule pushes_onlyI)
    (auto simp: pushcall_def PyPushCall_def EventLoop_PushCall_def incref_def Log_def
      New_PythonContextCall_def Schedule_def Let_def split: outcome.splits if_splits prod.splits)

lemma pushes_only_run_call:
  assumes "\<forall>p. pushes_only (py p)"
  shows "pushes_only (run_call py objs c)"
proof (rule pushes_onlyI)
  fix s
  have th: "logic_thread (py p t) = logic_thread t" for p t
    using assms by (simp add: pushes_only_def)
  have q: "\<exists>new. logic_queue (py p t) = logic_queue t @ new" for p t
    using pushes_only_queue(1) [of "py p" t] assms by blast
  show "logic_thread (run_call py objs c s) = logic_thread s"
    by (cases c)
      (simp_all add: th decref_def ScopedSetContext_def SetCurrentContext_def CurrentContext_def
        split: prod.splits)
  show "\<exists>new. logic_queue (run_call py objs c s) = logic_queue s @ new"
  proof (cases c)
    case (RawCall p)
    then show ?thesis using q [of p s] by (simp add: decref_def)
  next
    case (OtherThreadCall p fg)
    then show ?thesis
      using q [of p "SetCurrentContext (if fg then GetForegroundContext s else None) s"]
      by (simp add: decref_def ScopedSetContext_def SetCurrentContext_def CurrentContext_def
          split: prod.splits)
  next
    case (ContextCall p ctx)
    then show ?thesis
      using q [of p "SetCurrentContext ctx s"]
      by (simp add: ScopedSetContext_def SetCurrentContext_def CurrentContext_def
          split: prod.splits)
  next
    case (ObjCall i)
    then show ?thesis
      using q [of "objs i" "SetCurrentContext None s"]
      by (simp add: ScopedSetContext_def SetCurrentContext_def CurrentContext_def
          split: prod.splits)
  qed
qed

lemma zip_replicate_length: "zip (replicate (length xs) t) xs = map (Pair t) xs"
  by (simp add: zip_replicate1)

lemma submit_inv:
  assumes f: "pushes_only f" and inv: "loop_inv t0 r"
  shows "loop_inv t0 (submit t f r)"
proof -
  let ?new = "drop (length (logic_queue (st r))) (logic_queue (f (st r)))"
  have q: "logic_queue (f (st r)) = logic_queue (st r) @ ?new"
    and th: "logic_thread (f (st r)) = logic_thread (st r)"
    using pushes_only_queue [OF f, of "st r"] by simp_all
  have len: "length (logic_queue (f (st r))) = length (logic_queue (st r)) + length ?new"
    using arg_cong [OF q, of length] by simp
  from inv have l: "length (submitters r) = length (logic_queue (st r))"
    and h: "finished (trace r) @ zip (submitters r) (logic_queue (st r)) = submitted r"
    and w: "well_nested t0 (trace r)" and o: "logic_thread (st r) = Some t0"
    by (simp_all add: loop_inv_def)
  have z: "zip (submitters r @ replicate (length ?new) t) (logic_queue (f (st r)))
         = zip (submitters r) (logic_queue (st r)) @ map (Pair t) ?new"
    by (subst q) (simp only: zip_append [OF l] zip_replicate_length)
  show ?thesis
    using l h w o th len z
    by (simp add: loop_inv_def submit_def Let_def)
qed

lemma RunNextCall_inv:
  assumes py: "\<forall>p. pushes_only (py p)" and inv: "loop_inv t0 r"
  shows "loop_inv t0 (RunNextCall py objs r)"
proof (cases "logic_queue (st r)")
  case Nil
  with inv show ?thesis by (simp add: RunNextCall_def split: option.splits)
next
  case (Cons c rest)
  from inv have l: "length (submitters r) = length (logic_queue (st r))"
    and h: "finished (trace r) @ zip (submitters r) (logic_queue (st r)) = submitted r"
    and w: "well_nested t0 (trace r)" and o: "logic_thread (st r) = Some t0"
    by (simp_all add: loop_inv_def)
  from l Cons obtain u us where su: "submitters r = u # us"
    by (cases "submitters r") simp_all
  let ?r1 = "r\<lparr>st := (st r)\<lparr>logic_queue := rest\<rparr>, submitters := us,
                  trace := trace r @ [Begin t0 (u, c), Finish t0 (u, c)]\<rparr>"
  have inv1: "loop_inv t0 ?r1"
    using l h w o Cons su
    by (simp add: loop_inv_def finished_append well_nested_snoc)
  have inv2: "loop_inv t0 (submit t0 (run_call py objs c) ?r1)"
    by (rule submit_inv [OF pushes_only_run_call [OF py] inv1])
  have eq: "RunNextCall py objs r =
      (submit t0 (run_call py objs c) ?r1)"
    using o Cons su
    by (simp add: RunNextCall_def submit_def Let_def)
  show ?thesis
    unfolding eq by (rule inv2)
qed

lemma loop_start_inv:
  "logic_thread s = Some t0 \<Longrightarrow> logic_queue s = [] \<Longrightarrow> loop_inv t0 (loop_start s)"
  by (simp add: loop_inv_def loop_start_def)

lemma loop_step_inv:
  assumes "\<forall>p. pushes_only (py p)" and "loop_inv t0 r"
  shows "loop_inv t0 (loop_step py objs e r)"
  using assms
  by (cases e) (simp_all add: submit_inv pushes_only_PushCall pushes_only_pushcall RunNextCall_inv)

lemma run_events_inv:
  "\<forall>p. pushes_only (py p) \<Longrightarrow> loop_inv t0 r \<Longrightarrow> loop_inv t0 (run_events py objs evs r)"
  by (induction evs arbitrary: r) (simp_all add: loop_step_inv)

lemma run_events_append:
  "run_events py objs (xs @ ys) r = run_events py objs ys (run_events py objs xs r)"
  by (induction xs arbitrary: r) simp_all

lemma of_thread_other: "t \<noteq> T \<Longrightarrow> of_thread T (map (Pair t) xs) = []"
  by (simp add: of_thread_def filter_empty_conv)

lemma of_thread_same: "of_thread T (map (Pair T) xs) = xs"
  by (simp add: of_thread_def comp_def)

lemma submitted_submit:
  "submitted (submit t f r)
     = submitted r @ map (Pair t) (drop (length (logic_queue (st r))) (logic_queue (f (st r))))"
  by (simp add: submit_def Let_def)

lemma pushcall_off_thread:
  assumes "logic_thread s = Some t0" and "T \<noteq> t0"
  shows "drop (length (logic_queue s)) (logic_queue (pushcall T call_obj fot sw fg raw s))
       = (if raw then [RawCall call_obj]
          else if fot then [OtherThreadCall call_obj fg]
          else [])"
  using assms
  by (auto simp: pushcall_def PyPushCall_def EventLoop_PushCall_def incref_def Log_def
      InLogicThread_def Let_def)

lemma RunNextCall_submitted:
  assumes "loop_inv t0 r" and "T \<noteq> t0"
  shows "of_thread T (submitted (RunNextCall py objs r)) = of_thread T (submitted r)"
proof -
  from assms(1) have o: "logic_thread (st r) = Some t0"
    by (simp add: loop_inv_def)
  show ?thesis
    using o assms(2)
    by (auto simp: RunNextCall_def Let_def submitted_submit of_thread_append of_thread_other
        submit_def split: list.splits)
qed

lemma loop_step_pushed_by:
  assumes "loop_inv t0 r" and "T \<noteq> t0"
  shows "of_thread T (submitted (loop_step py objs e r))
       = of_thread T (submitted r) @ pushed_by T [e]"
proof (cases e)
  case (Push t c)
  then show ?thesis
    by (cases "t = T")
      (simp_all add: submitted_submit EventLoop_PushCall_def of_thread_append of_thread_def)
next
  case (PushCallFrom t call_obj fot sw fg raw)
  from assms(1) have o: "logic_thread (st r) = Some t0"
    by (simp add: loop_inv_def)
  show ?thesis
  proof (cases "t = T")
    case True
    with PushCallFrom pushcall_off_thread [OF o assms(2), of call_obj fot sw fg raw]
    show ?thesis
      by (simp add: submitted_submit of_thread_append of_thread_def)
  next
    case False
    with PushCallFrom show ?thesis
      by (simp add: submitted_submit of_thread_append of_thread_other)
  qed
next
  case RunNext
  with RunNextCall_submitted [OF assms] show ?thesis by simp
qed

lemma pushed_by_Cons: "pushed_by T (e # evs) = pushed_by T [e] @ pushed_by T evs"
  by (cases e) simp_all

lemma run_events_pushed_by:
  assumes "\<forall>p. pushes_only (py p)" and "T \<noteq> t0"
  shows "loop_inv t0 r \<Longrightarrow>
     of_thread T (submitted (run_events py objs evs r))
       = of_thread T (submitted r) @ pushed_by T evs"
proof (induction evs arbitrary: r)
  case Nil
  show ?case by simp
next
  case (Cons e evs)
  have inv': "loop_inv t0 (loop_step py objs e r)"
    by (rule loop_step_inv [OF assms(1) Cons.prems])
  show ?case
    using Cons.IH [OF inv'] loop_step_pushed_by [OF Cons.prems assms(2), of py objs e]
      pushed_by_Cons [of T e evs]
    by simp
qed

lemma run_next_n:
  assumes py: "\<forall>p. pushes_only (py p)"
  shows "loop_inv t0 r \<Longrightarrow> n \<le> length (logic_queue (st r)) \<Longrightarrow>
     finished (trace (run_events py objs (replicate n RunNext) r))
       = finished (trace r) @ take n (zip (submitters r) (logic_queue (st r)))"
proof (induction n arbitrary: r)
  case 0
  show ?case by simp
next
  case (Suc n)
  from Suc.prems obtain c rest where q: "logic_queue (st r) = c # rest"
    by (cases "logic_queue (st r)") simp_all
  from Suc.prems(1) have l: "length (submitters r) = length (logic_queue (st r))"
    and o: "logic_thread (st r) = Some t0"
    by (simp_all add: loop_inv_def)
  from l q obtain u us where su: "submitters r = u # us"
    by (cases "submitters r") simp_all
  from l q su have lus: "length us = length rest" by simp
  let ?r' = "RunNextCall py objs r"
  have inv': "loop_inv t0 ?r'"
    by (rule RunNextCall_inv [OF py Suc.prems(1)])
  let ?s1 = "run_call py objs c ((st r)\<lparr>logic_queue := rest\<rparr>)"
  have po: "pushes_only (run_call py objs c)"
    by (rule pushes_only_run_call [OF py])
  have q1: "logic_queue ?s1 = rest @ drop (length rest) (logic_queue ?s1)"
    using pushes_only_queue(1) [OF po, of "(st r)\<lparr>logic_queue := rest\<rparr>"] by simp
  have st': "st ?r' = ?s1"
    and sub': "submitters ?r' = us @ replicate (length (drop (length rest) (logic_queue ?s1))) t0"
    and tr': "trace ?r' = trace r @ [Begin t0 (u, c), Finish t0 (u, c)]"
    using o q su by (simp_all add: RunNextCall_def submit_def Let_def)
  have n: "n \<le> length rest"
    using Suc.prems(2) q by simp
  have n': "n \<le> length (logic_queue (st ?r'))"
    using n q1 st' by (metis le_add1 le_trans length_append)
  have tk: "take n (zip (submitters ?r') (logic_queue (st ?r'))) = take n (zip us rest)"
  proof -
    have "zip (submitters ?r') (logic_queue (st ?r'))
        = zip us rest @ zip (replicate (length (drop (length rest) (logic_queue ?s1))) t0)
                            (drop (length rest) (logic_queue ?s1))"
      unfolding st' sub' by (subst q1) (simp only: zip_append [OF lus])
    then show ?thesis using n lus by simp
  qed
  have "finished (trace (run_events py objs (replicate n RunNext) ?r'))
      = finished (trace ?r') @ take n (zip (submitters ?r') (logic_queue (st ?r')))"
    by (rule Suc.IH [OF inv' n'])
  then show ?case
    using tk tr' q su by (simp add: finished_append)
qed

lemma pushes_run:
  "logic_queue s = [] \<Longrightarrow>
     run_events py objs (map (Push T) cs) (loop_start s)
       = \<lparr>st = s\<lparr>logic_queue := cs\<rparr>, submitters = replicate (length cs) T,
          submitted = map (Pair T) cs, trace = []\<rparr>"
proof -
  have gen: "run_events py objs (map (Push T) cs) r
      = r\<lparr>st := (st r)\<lparr>logic_queue := logic_queue (st r) @ cs\<rparr>,
           submitters := submitters r @ replicate (length cs) T,
           submitted := submitted r @ map (Pair T) cs\<rparr>" for r
  proof (induction cs arbitrary: r)
    case Nil
    show ?case by simp
  next
    case (Cons c cs)
    show ?case
      by (simp add: Cons.IH submit_def EventLoop_PushCall_def Let_def replicate_append_same)
  qed
  assume "logic_queue s = []"
  then show ?thesis
    using gen [of "loop_start s"] by (simp add: loop_start_def)
qed

lemma pushes_only_probe: "pushes_only (probe me p)"
proof -
  have "probe me p = pushcall me p False False False False"
    by (rule ext) (simp add: probe_def pushcall_def)
  then show ?thesis by (simp add: pushes_only_pushcall)
qed

text \<open>
  C3. Take a logic event loop that has just been created, on thread \<open>t0\<close> with nothing
  pending, and callables that reach the loop only by pushing to it. Let any sequence of
  events happen: pushes by any threads, natively or through \<open>pushcall\<close>, interleaved in any
  way with the loop running its oldest pending call. Then:
  \<^item> every call that ran began and finished on \<open>t0\<close>, the loop's owning thread, and no call
    began before the one before it had finished;
  \<^item> the calls that ran, followed by the calls still pending, are exactly the pushes in
    the order they were made, so calls run strictly in submission order (a call pushed
    by a running callable goes behind everything pending);
  \<^item> hence for every thread \<open>T\<close> the calls of \<open>T\<close> that ran, followed by its pending
    ones, are its pushes in its order, and for a thread other than \<open>t0\<close> these are the
    pushes read off the events;
  \<^item> pushing the calls \<open>cs\<close> from one thread \<open>T\<close> and then running as many calls runs
    exactly \<open>cs\<close>, in order: pushing A, B, C gives the execution order A, B, C.
\<close>

theorem calls_run_in_submission_order:
  assumes py: "\<forall>p. pushes_only (py p)"
    and own: "logic_thread s = Some t0"
    and new: "logic_queue s = []"
  shows "(let r = run_events py objs evs (loop_start s) in
            well_nested t0 (trace r)
          \<and> finished (trace r) @ zip (submitters r) (logic_queue (st r)) = submitted r
          \<and> (\<forall>T. of_thread T (finished (trace r))
                    @ of_thread T (zip (submitters r) (logic_queue (st r)))
                  = of_thread T (submitted r))
          \<and> (\<forall>T. T \<noteq> t0 \<longrightarrow> of_thread T (submitted r) = pushed_by T evs))
       \<and> finished (trace (run_events py objs (map (Push T) cs @ replicate (length cs) RunNext)
                            (loop_start s)))
           = map (Pair T) cs"
proof -
  define r where "r = run_events py objs evs (loop_start s)"
  have start: "loop_inv t0 (loop_start s)"
    by (rule loop_start_inv [OF own new])
  have inv: "loop_inv t0 r"
    unfolding r_def by (rule run_events_inv [OF py start])
  then have nested: "well_nested t0 (trace r)"
    and fifo: "finished (trace r) @ zip (submitters r) (logic_queue (st r)) = submitted r"
    by (simp_all add: loop_inv_def)
  have each: "of_thread T' (finished (trace r))
                @ of_thread T' (zip (submitters r) (logic_queue (st r)))
              = of_thread T' (submitted r)" for T'
    using arg_cong [OF fifo, of "of_thread T'"] by (simp add: of_thread_append)
  have theirs: "of_thread T' (submitted r) = pushed_by T' evs" if "T' \<noteq> t0" for T'
    using run_events_pushed_by [OF py that start, of objs evs]
    by (simp add: r_def loop_start_def of_thread_def)
  let ?r1 = "run_events py objs (map (Push T) cs) (loop_start s)"
  have r1: "?r1 = \<lparr>st = s\<lparr>logic_queue := cs\<rparr>, submitters = replicate (length cs) T,
                    submitted = map (Pair T) cs, trace = []\<rparr>"
    by (rule pushes_run [OF new])
  have inv1: "loop_inv t0 ?r1"
    by (rule run_events_inv [OF py start])
  have "finished (trace (run_events py objs (replicate (length cs) RunNext) ?r1))
      = finished (trace ?r1) @ take (length cs) (zip (submitters ?r1) (logic_queue (st ?r1)))"
    by (rule run_next_n [OF py inv1]) (simp add: r1)
  then have abc: "finished (trace (run_events py objs
                      (map (Push T) cs @ replicate (length cs) RunNext) (loop_start s)))
                  = map (Pair T) cs"
    by (simp add: run_events_append r1 zip_replicate_length)
  show ?thesis
    using nested fifo each theirs abc by (simp add: Let_def r_def)
qed

theorem calls_run_in_submission_order_witness:
  "finished (trace (run_events (probe 0) (\<lambda>_. 0)
       [Push 1 (RawCall 10), Push 1 (RawCall 11), Push 1 (RawCall 12), RunNext, RunNext, RunNext]
       (loop_start (boot_state 0))))
     = [(1, RawCall 10), (1, RawCall 11), (1, RawCall 12)]
   \<and> (let r = run_events (probe 0) (\<lambda>_. 0)
               [PushCallFrom 1 10 False False False True, PushCallFrom 2 20 True False True False,
                RunNext, PushCallFrom 1 11 False False False True, RunNext,
                PushCallFrom 1 12 False False False True, RunNext]
               (loop_start (boot_state 0))
        in of_thread 1 (finished (trace r)) @ of_thread 1 (zip (submitters r) (logic_queue (st r)))
             = [RawCall 10, RawCall 11, RawCall 12])"
proof -
  have py: "\<forall>p. pushes_only (probe 0 p)"
    by (simp add: pushes_only_probe)
  have own: "logic_thread (boot_state 0) = Some 0" and new: "logic_queue (boot_state 0) = []"
    by (simp_all add: boot_state_def)
  have abc: "map (Push 1) [RawCall 10, RawCall 11, RawCall 12]
               @ replicate (length [RawCall 10, RawCall 11, RawCall 12]) RunNext
             = [Push 1 (RawCall 10), Push 1 (RawCall 11), Push 1 (RawCall 12), RunNext, RunNext, RunNext]"
    by (simp add: numeral_3_eq_3)
  from calls_run_in_submission_order [OF py own new,
      of "\<lambda>_. 0"
         "[PushCallFrom 1 10 False False False True, PushCallFrom 2 20 True False True False,
           RunNext, PushCallFrom 1 11 False False False True, RunNext,
           PushCallFrom 1 12 False False False True, RunNext]"
         1 "[RawCall 10, RawCall 11, RawCall 12]"]
  show ?thesis
    unfolding abc by (simp add: Let_def)
qed

text \<open>
  A whole run, computed: thread 1 pushes A (object 10), thread 2 pushes X (object 20), the
  loop runs A, which pushes itself again; thread 1 pushes B and C; the loop runs four
  more calls. A's second push runs after X, which was pending before it, and before B
  and C, which were pushed after it.
\<close>

lemma pushed_while_running_goes_behind:
  "map snd (finished (trace (run_events (probe 0) (\<lambda>_. 0)
       [PushCallFrom 1 10 False False False True, PushCallFrom 2 20 True False True False,
        RunNext, PushCallFrom 1 11 False False False True, PushCallFrom 1 12 False False False True,
        RunNext, RunNext, RunNext, RunNext]
       (loop_start (boot_state 0)))))
   = [RawCall 10, OtherThreadCall 20 True, ContextCall 10 None, RawCall 11, RawCall 12]"
  by (simp add: loop_start_def boot_state_def submit_def pushcall_def PyPushCall_def RunNextCall_def
      EventLoop_PushCall_def incref_def Log_def InLogicThread_def probe_def decref_def
      ScopedSetContext_def SetCurrentContext_def CurrentContext_def GetForegroundContext_def
      New_PythonContextCall_def Schedule_def Let_def)

end
